theory Spec2Isabelle
  imports Main "HOL-Library.AList"
begin

section \<open>Data model (models/Player.ts, models/GameState.ts, models/Token.ts)\<close>

datatype PlayerColor = RED | BLUE | GREEN | YELLOW

datatype ConnectionStatus = CONNECTED | DISCONNECTED | RECONNECTING

datatype GamePhase = WAITING | ROLLING | MOVING | FINISHED

record Player =
  playerId :: string
  playerName :: string
  color :: PlayerColor
  connectionStatus :: ConnectionStatus
  isSpectator :: bool
  rank :: nat

record TokenPosition =
  tokenId :: string
  positionId :: string

record PlayerRank =
  rankPlayerId :: string
  rankValue :: nat
  rankFinishedAt :: nat

text \<open>
  \<open>tokenPositions\<close> is a JavaScript object keyed by colour; \<open>Object.entries\<close> walks it in
  insertion order, so it is an association list.  Dates are numbers (\<open>nat\<close>), \<open>null\<close> and
  absent optional fields are \<open>None\<close>.
\<close>

type_synonym TokenMap = "(PlayerColor \<times> TokenPosition list) list"

record GameState =
  roomCode :: string
  players :: "Player list"
  currentPlayerIndex :: nat
  diceValue :: "nat option"
  tokenPositions :: TokenMap
  phase :: GamePhase
  rankings :: "PlayerRank list"
  consecutiveSixes :: nat
  startedAt :: "nat option"
  finishedAt :: "nat option"

section \<open>Board rules (utils/gameRules.ts)\<close>

fun TOKEN_PATHS :: "PlayerColor \<Rightarrow> string list" where
  "TOKEN_PATHS BLUE =
    [''B04'', ''B03'', ''B02'', ''B01'', ''B00'', ''R52'', ''R42'', ''R32'', ''R22'', ''R12'',
     ''R02'', ''R01'', ''R00'', ''R10'', ''R20'', ''R30'', ''R40'', ''R50'', ''G05'', ''G04'',
     ''G03'', ''G02'', ''G01'', ''G00'', ''G10'', ''G20'', ''G21'', ''G22'', ''G23'', ''G24'',
     ''G25'', ''Y00'', ''Y10'', ''Y20'', ''Y30'', ''Y40'', ''Y50'', ''Y51'', ''Y52'', ''Y42'',
     ''Y32'', ''Y22'', ''Y12'', ''Y02'', ''B20'', ''B21'', ''B22'', ''B23'', ''B24'', ''B25'',
     ''B15'', ''B14'', ''B13'', ''B12'', ''B11'', ''B10'', ''BF'']"
| "TOKEN_PATHS GREEN =
    [''G21'', ''G22'', ''G23'', ''G24'', ''G25'', ''Y00'', ''Y10'', ''Y20'', ''Y30'', ''Y40'',
     ''Y50'', ''Y51'', ''Y52'', ''Y42'', ''Y32'', ''Y22'', ''Y12'', ''Y02'', ''B20'', ''B21'',
     ''B22'', ''B23'', ''B24'', ''B25'', ''B15'', ''B05'', ''B04'', ''B03'', ''B02'', ''B01'',
     ''B00'', ''R52'', ''R42'', ''R32'', ''R22'', ''R12'', ''R02'', ''R01'', ''R00'', ''R10'',
     ''R20'', ''R30'', ''R40'', ''R50'', ''G05'', ''G04'', ''G03'', ''G02'', ''G01'', ''G00'',
     ''G10'', ''G11'', ''G12'', ''G13'', ''G14'', ''G15'', ''GF'']"
| "TOKEN_PATHS RED =
    [''R10'', ''R20'', ''R30'', ''R40'', ''R50'', ''G05'', ''G04'', ''G03'', ''G02'', ''G01'',
     ''G00'', ''G10'', ''G20'', ''G21'', ''G22'', ''G23'', ''G24'', ''G25'', ''Y00'', ''Y10'',
     ''Y20'', ''Y30'', ''Y40'', ''Y50'', ''Y51'', ''Y52'', ''Y42'', ''Y32'', ''Y22'', ''Y12'',
     ''Y02'', ''B20'', ''B21'', ''B22'', ''B23'', ''B24'', ''B25'', ''B15'', ''B05'', ''B04'',
     ''B03'', ''B02'', ''B01'', ''B00'', ''R52'', ''R42'', ''R32'', ''R22'', ''R12'', ''R02'',
     ''R01'', ''R11'', ''R21'', ''R31'', ''R41'', ''R51'', ''RF'']"
| "TOKEN_PATHS YELLOW =
    [''Y42'', ''Y32'', ''Y22'', ''Y12'', ''Y02'', ''B20'', ''B21'', ''B22'', ''B23'', ''B24'',
     ''B25'', ''B15'', ''B05'', ''B04'', ''B03'', ''B02'', ''B01'', ''B00'', ''R52'', ''R42'',
     ''R32'', ''R22'', ''R12'', ''R02'', ''R01'', ''R00'', ''R10'', ''R20'', ''R30'', ''R40'',
     ''R50'', ''G05'', ''G04'', ''G03'', ''G02'', ''G01'', ''G00'', ''G10'', ''G20'', ''G21'',
     ''G22'', ''G23'', ''G24'', ''G25'', ''Y00'', ''Y10'', ''Y20'', ''Y30'', ''Y40'', ''Y50'',
     ''Y51'', ''Y41'', ''Y31'', ''Y21'', ''Y11'', ''Y01'', ''YF'']"

fun BASE_POSITIONS :: "PlayerColor \<Rightarrow> string list" where
  "BASE_POSITIONS BLUE = [''B1'', ''B2'', ''B3'', ''B4'']"
| "BASE_POSITIONS GREEN = [''G1'', ''G2'', ''G3'', ''G4'']"
| "BASE_POSITIONS RED = [''R1'', ''R2'', ''R3'', ''R4'']"
| "BASE_POSITIONS YELLOW = [''Y1'', ''Y2'', ''Y3'', ''Y4'']"

fun START_POSITIONS :: "PlayerColor \<Rightarrow> string" where
  "START_POSITIONS BLUE = ''B04''"
| "START_POSITIONS GREEN = ''G21''"
| "START_POSITIONS RED = ''R10''"
| "START_POSITIONS YELLOW = ''Y42''"

fun HOME_POSITIONS :: "PlayerColor \<Rightarrow> string" where
  "HOME_POSITIONS BLUE = ''BF''"
| "HOME_POSITIONS GREEN = ''GF''"
| "HOME_POSITIONS RED = ''RF''"
| "HOME_POSITIONS YELLOW = ''YF''"

definition SAFE_SPOTS :: "string list" where
  "SAFE_SPOTS = [''B04'', ''B23'', ''R22'', ''R10'', ''G02'', ''G21'', ''Y30'', ''Y42'']"

text \<open>\<open>s.endsWith('F')\<close>: the string is not empty and its last character is \<open>F\<close>.\<close>

definition endsWithF :: "string \<Rightarrow> bool" where
  "endsWithF s = (s \<noteq> [] \<and> last s = CHR ''F'')"

definition isTokenInBase :: "string \<Rightarrow> bool" where
  "isTokenInBase p = (length p = 2 \<and> \<not> endsWithF p)"

definition getTokenPath :: "PlayerColor \<Rightarrow> string list" where
  "getTokenPath c = TOKEN_PATHS c"

text \<open>\<open>Array.prototype.indexOf\<close>: the first index holding the value, \<open>None\<close> for \<open>-1\<close>.\<close>

fun indexOf :: "'a list \<Rightarrow> 'a \<Rightarrow> nat option" where
  "indexOf [] x = None"
| "indexOf (y # ys) x = (if y = x then Some 0 else map_option Suc (indexOf ys x))"

record MoveValidation =
  valid :: bool
  targetPosition :: "string option"
  reason :: "string option"

definition canMoveToken :: "string \<Rightarrow> nat \<Rightarrow> PlayerColor \<Rightarrow> MoveValidation" where
  "canMoveToken tokenPos dice c =
     (if isTokenInBase tokenPos then
        (if dice = 6
         then \<lparr>valid = True, targetPosition = Some (START_POSITIONS c), reason = None\<rparr>
         else \<lparr>valid = False, targetPosition = None,
               reason = Some ''Need a 6 to move out of base''\<rparr>)
      else
        (let path = getTokenPath c in
         case indexOf path tokenPos of
           None \<Rightarrow> \<lparr>valid = False, targetPosition = None,
                     reason = Some ''Invalid token position''\<rparr>
         | Some currentIndex \<Rightarrow>
             (let targetIndex = currentIndex + dice in
              if targetIndex \<ge> length path
              then \<lparr>valid = False, targetPosition = None,
                     reason = Some ''Move exceeds path length''\<rparr>
              else \<lparr>valid = True, targetPosition = Some (path ! targetIndex),
                     reason = None\<rparr>)))"

definition isSafeSpot :: "string \<Rightarrow> bool" where
  "isSafeSpot p = (p \<in> set SAFE_SPOTS)"

record Collision =
  captured :: bool
  capturedTokens :: "TokenPosition list"

text \<open>The two nested loops of \<open>detectCollision\<close>: colours in entry order, the attacker's
  colour skipped, every token standing on the target pushed.\<close>

fun collectCaptured :: "string \<Rightarrow> PlayerColor \<Rightarrow> TokenMap \<Rightarrow> TokenPosition list" where
  "collectCaptured tgt att [] = []"
| "collectCaptured tgt att ((c, toks) # rest) =
     (if c = att then collectCaptured tgt att rest
      else filter (\<lambda>t. positionId t = tgt) toks @ collectCaptured tgt att rest)"

definition detectCollision :: "string \<Rightarrow> PlayerColor \<Rightarrow> TokenMap \<Rightarrow> Collision" where
  "detectCollision tgt att allTokens =
     (if isSafeSpot tgt then \<lparr>captured = False, capturedTokens = []\<rparr>
      else (let cs = collectCaptured tgt att allTokens
            in \<lparr>captured = (length cs > 0), capturedTokens = cs\<rparr>))"

definition checkWinCondition :: "PlayerColor \<Rightarrow> TokenPosition list \<Rightarrow> bool" where
  "checkWinCondition c toks =
     (length (filter (\<lambda>t. positionId t = HOME_POSITIONS c) toks) = 4)"

text \<open>\<open>parseInt\<close> of one character: a decimal digit gives its value, anything else
  (also the empty string of \<open>charAt\<close> on an empty id) gives \<open>NaN\<close>, here \<open>None\<close>.\<close>

definition digitOf :: "char \<Rightarrow> nat option" where
  "digitOf ch = indexOf ''0123456789'' ch"

text \<open>\<open>basePositions[tokenNumber - 1]\<close> is \<open>undefined\<close> (\<open>None\<close>) unless the number is 1..4.\<close>

definition getBasePosition :: "string \<Rightarrow> PlayerColor \<Rightarrow> string option" where
  "getBasePosition tid c =
     (if tid = [] then None
      else case digitOf (last tid) of
             None \<Rightarrow> None
           | Some n \<Rightarrow> (if 1 \<le> n \<and> n \<le> length (BASE_POSITIONS c)
                        then Some (BASE_POSITIONS c ! (n - 1)) else None))"

text \<open>\<open>color.charAt(0).toUpperCase()\<close> of the enum values red, blue, green, yellow.\<close>

fun colorInitial :: "PlayerColor \<Rightarrow> char" where
  "colorInitial RED = CHR ''R''"
| "colorInitial BLUE = CHR ''B''"
| "colorInitial GREEN = CHR ''G''"
| "colorInitial YELLOW = CHR ''Y''"

definition isValidTokenId :: "string \<Rightarrow> PlayerColor \<Rightarrow> bool" where
  "isValidTokenId tid c = (take 2 tid = [colorInitial c, CHR ''T''] \<and> length tid = 3)"

section \<open>Game service (services/GameService.ts)\<close>

text \<open>
  The keyed store holds one game state per room code.  Values thrown by the JavaScript
  runtime are results of the model: \<open>TypeError\<close> for a property read on \<open>undefined\<close>.
  \<open>UndefinedPosition\<close> marks the one place where the source would write \<open>undefined\<close> into
  \<open>positionId\<close>, a value outside the declared type \<open>string\<close>; the model stops there.
\<close>

type_synonym Store = "string \<rightharpoonup> GameState"

datatype exn = TypeError | UndefinedPosition

definition getGameState :: "Store \<Rightarrow> string \<Rightarrow> GameState option" where
  "getGameState st rc = st rc"

definition saveGameState :: "Store \<Rightarrow> GameState \<Rightarrow> Store" where
  "saveGameState st gs = st(roomCode gs \<mapsto> gs)"

fun digitChar :: "nat \<Rightarrow> char" where
  "digitChar n = ''0123456789'' ! n"

fun showNat :: "nat \<Rightarrow> string" where
  "showNat n = (if n < 10 then [digitChar n] else showNat (n div 10) @ [digitChar (n mod 10)])"

definition initialTokens :: "PlayerColor \<Rightarrow> TokenPosition list" where
  "initialTokens c =
     map (\<lambda>(i, p). \<lparr>tokenId = [colorInitial c, CHR ''T''] @ showNat (i + 1), positionId = p\<rparr>)
         (enumerate 0 (BASE_POSITIONS c))"

definition initializeGame :: "Store \<Rightarrow> nat \<Rightarrow> string \<Rightarrow> Player list \<Rightarrow> GameState \<times> Store" where
  "initializeGame st now rc ps =
     (let tps = foldl (\<lambda>tp p. AList.update (color p) (initialTokens (color p)) tp) [] ps;
          gs = \<lparr>roomCode = rc, players = ps, currentPlayerIndex = 0, diceValue = None,
                tokenPositions = tps, phase = ROLLING, rankings = [], consecutiveSixes = 0,
                startedAt = Some now, finishedAt = None\<rparr>
      in (gs, saveGameState st gs))"

text \<open>
  The do-while loop of \<open>switchTurn\<close>.  With no players \<open>(i + 1) % 0\<close> is \<open>NaN\<close> and the read
  of \<open>.rank\<close> throws.  The loop has no bound of its own, so the scan is a partial function:
  \<open>None\<close> means that it never returns.
\<close>

partial_function (option) nextPlayerScan :: "Player list \<Rightarrow> nat \<Rightarrow> nat \<Rightarrow> (exn + nat) option" where
  "nextPlayerScan ps cur i =
     (if ps = [] then Some (Inl TypeError)
      else (let nxt = (i + 1) mod length ps
            in if rank (ps ! nxt) > 0 \<and> nxt \<noteq> cur then nextPlayerScan ps cur nxt
               else Some (Inr nxt)))"

declare nextPlayerScan.simps [code]

text \<open>The same loop with a bound on the number of iterations, to count them.\<close>

fun nextPlayerScanN :: "nat \<Rightarrow> Player list \<Rightarrow> nat \<Rightarrow> nat \<Rightarrow> (exn + nat) option" where
  "nextPlayerScanN 0 ps cur i = None"
| "nextPlayerScanN (Suc k) ps cur i =
     (if ps = [] then Some (Inl TypeError)
      else (let nxt = (i + 1) mod length ps
            in if rank (ps ! nxt) > 0 \<and> nxt \<noteq> cur then nextPlayerScanN k ps cur nxt
               else Some (Inr nxt)))"

definition switchTurn :: "Store \<Rightarrow> string \<Rightarrow> (exn + (GameState option \<times> Store)) option" where
  "switchTurn st rc =
     (case getGameState st rc of
        None \<Rightarrow> Some (Inr (None, st))
      | Some gs \<Rightarrow>
          (case nextPlayerScan (players gs) (currentPlayerIndex gs) (currentPlayerIndex gs) of
             None \<Rightarrow> None
           | Some (Inl e) \<Rightarrow> Some (Inl e)
           | Some (Inr nextPlayerIndex) \<Rightarrow>
               (let gs' = gs\<lparr>currentPlayerIndex := nextPlayerIndex, diceValue := None,
                             phase := ROLLING, consecutiveSixes := 0\<rparr>
                in Some (Inr (Some gs', saveGameState st gs')))))"

text \<open>\<open>tokenPositions[color]\<close> is \<open>undefined\<close> for a colour without entry, and iterating it
  throws.\<close>

definition checkValidMoves :: "GameState \<Rightarrow> PlayerColor \<Rightarrow> nat \<Rightarrow> exn + bool" where
  "checkValidMoves gs c d =
     (case map_of (tokenPositions gs) c of
        None \<Rightarrow> Inl TypeError
      | Some playerTokens \<Rightarrow>
          Inr (list_ex (\<lambda>t. valid (canMoveToken (positionId t) d c)) playerTokens))"

record RollResult =
  r_success :: bool
  r_diceValue :: "nat option"
  r_error :: "string option"
  r_skipTurn :: "bool option"

definition rollFailed :: "string \<Rightarrow> RollResult" where
  "rollFailed e = \<lparr>r_success = False, r_diceValue = None, r_error = Some e, r_skipTurn = None\<rparr>"

definition rolled :: "nat \<Rightarrow> bool \<Rightarrow> RollResult" where
  "rolled d skip = \<lparr>r_success = True, r_diceValue = Some d, r_error = None,
                    r_skipTurn = Some skip\<rparr>"

text \<open>The skip branches of \<open>rollDice\<close>: the changes made to the loaded copy are dropped,
  \<open>switchTurn\<close> loads the stored state again and saves its own update.\<close>

definition skipViaSwitchTurn :: "Store \<Rightarrow> string \<Rightarrow> nat \<Rightarrow> (exn + (RollResult \<times> Store)) option" where
  "skipViaSwitchTurn st rc d =
     (case switchTurn st rc of
        None \<Rightarrow> None
      | Some (Inl e) \<Rightarrow> Some (Inl e)
      | Some (Inr (_, st')) \<Rightarrow> Some (Inr (rolled d True, st')))"

text \<open>\<open>rollDice\<close>; the value of \<open>Math.floor(Math.random() * 6) + 1\<close> is the argument \<open>d\<close>.\<close>

definition rollDice :: "Store \<Rightarrow> string \<Rightarrow> string \<Rightarrow> nat \<Rightarrow> (exn + (RollResult \<times> Store)) option" where
  "rollDice st rc pid d =
     (case getGameState st rc of
        None \<Rightarrow> Some (Inr (rollFailed ''Game not found'', st))
      | Some gs \<Rightarrow>
          if currentPlayerIndex gs \<ge> length (players gs) then Some (Inl TypeError)
          else (let currentPlayer = players gs ! currentPlayerIndex gs in
            if playerId currentPlayer \<noteq> pid then Some (Inr (rollFailed ''Not your turn'', st))
            else if phase gs \<noteq> ROLLING
              then Some (Inr (rollFailed ''Cannot roll dice in current phase'', st))
            else (let sixes = (if d = 6 then consecutiveSixes gs + 1 else 0) in
              if sixes = 3 then skipViaSwitchTurn st rc d
              else (case checkValidMoves gs (color currentPlayer) d of
                      Inl e \<Rightarrow> Some (Inl e)
                    | Inr hasValidMoves \<Rightarrow>
                        if \<not> hasValidMoves then skipViaSwitchTurn st rc d
                        else Some (Inr (rolled d False,
                               saveGameState st
                                 (gs\<lparr>consecutiveSixes := sixes, diceValue := Some d,
                                     phase := MOVING\<rparr>)))))))"

record MoveResult =
  m_success :: bool
  m_tokenId :: string
  m_fromPosition :: string
  m_toPosition :: string
  m_capturedTokenId :: "string option"
  m_extraTurn :: bool

record MoveResponse =
  success :: bool
  result :: "MoveResult option"
  error :: "string option"

definition moveFailed :: "string option \<Rightarrow> MoveResponse" where
  "moveFailed e = \<lparr>success = False, result = None, error = e\<rparr>"

text \<open>\<open>Array.prototype.findIndex\<close>, \<open>None\<close> for \<open>-1\<close>; \<open>find\<close> is the element at that index.\<close>

fun findIndex :: "('a \<Rightarrow> bool) \<Rightarrow> 'a list \<Rightarrow> nat option" where
  "findIndex P [] = None"
| "findIndex P (x # xs) = (if P x then Some 0 else map_option Suc (findIndex P xs))"

text \<open>The inner loop over \<open>Object.entries(gameState.tokenPositions)\<close> for one captured token:
  the first colour whose list holds the token id gets that token sent to the base slot
  computed for this colour, and the loop breaks.  \<open>None\<close>: no colour holds the id.\<close>

fun resetCaptured :: "string \<Rightarrow> TokenMap \<Rightarrow> (exn + TokenMap) option" where
  "resetCaptured tid [] = None"
| "resetCaptured tid ((c, toks) # rest) =
     (case findIndex (\<lambda>t. tokenId t = tid) toks of
        Some tokenIndex \<Rightarrow>
          (case getBasePosition tid c of
             None \<Rightarrow> Some (Inl UndefinedPosition)
           | Some basePosition \<Rightarrow>
               Some (Inr ((c, toks[tokenIndex := (toks ! tokenIndex)\<lparr>positionId := basePosition\<rparr>])
                          # rest)))
      | None \<Rightarrow>
          (case resetCaptured tid rest of
             None \<Rightarrow> None
           | Some (Inl e) \<Rightarrow> Some (Inl e)
           | Some (Inr rest') \<Rightarrow> Some (Inr ((c, toks) # rest'))))"

text \<open>The outer loop over \<open>collision.capturedTokens\<close>, carrying the token map and
  \<open>capturedTokenId\<close>.\<close>

fun handleCaptured ::
  "TokenPosition list \<Rightarrow> TokenMap \<Rightarrow> string option \<Rightarrow> exn + (TokenMap \<times> string option)" where
  "handleCaptured [] tp cap = Inr (tp, cap)"
| "handleCaptured (ct # cts) tp cap =
     (case resetCaptured (tokenId ct) tp of
        None \<Rightarrow> handleCaptured cts tp cap
      | Some (Inl e) \<Rightarrow> Inl e
      | Some (Inr tp') \<Rightarrow> handleCaptured cts tp' (Some (tokenId ct)))"

text \<open>\<open>token.positionId = targetPositionId\<close> on the token returned by \<open>find\<close>.\<close>

fun setTokenPosition :: "string \<Rightarrow> string \<Rightarrow> TokenPosition list \<Rightarrow> TokenPosition list" where
  "setTokenPosition tid p [] = []"
| "setTokenPosition tid p (t # ts) =
     (if tokenId t = tid then t\<lparr>positionId := p\<rparr> # ts else t # setTokenPosition tid p ts)"

text \<open>The win branch of \<open>moveToken\<close> (the body of \<open>if (hasWon)\<close>), for the current player at
  index \<open>i\<close>.\<close>

definition recordWin :: "nat \<Rightarrow> GameState \<Rightarrow> GameState" where
  "recordWin now gs =
     (let i = currentPlayerIndex gs;
          currentPlayer = players gs ! i;
          rnk = length (rankings gs) + 1;
          gs1 = gs\<lparr>rankings := rankings gs @
                       [\<lparr>rankPlayerId = playerId currentPlayer, rankValue = rnk,
                         rankFinishedAt = now\<rparr>],
                    players := (players gs)[i := currentPlayer\<lparr>rank := rnk\<rparr>]\<rparr>
      in if int (length (rankings gs1)) = int (length (players gs1)) - 1 then
           (let gs2 =
                  (case findIndex (\<lambda>p. \<not> list_ex (\<lambda>r. rankPlayerId r = playerId p) (rankings gs1))
                          (players gs1) of
                     None \<Rightarrow> gs1
                   | Some j \<Rightarrow>
                       (let lastPlayer = players gs1 ! j in
                        gs1\<lparr>rankings := rankings gs1 @
                               [\<lparr>rankPlayerId = playerId lastPlayer,
                                 rankValue = length (players gs1), rankFinishedAt = now\<rparr>],
                            players := (players gs1)[j := lastPlayer\<lparr>rank := length (players gs1)\<rparr>]\<rparr>))
            in gs2\<lparr>phase := FINISHED, finishedAt := Some now\<rparr>)
         else gs1)"

text \<open>\<open>moveToken\<close> after its validations: the move is applied, captures are resolved, the
  win is checked, phase and dice are reset and the state is saved.\<close>

definition applyMove ::
  "nat \<Rightarrow> Store \<Rightarrow> GameState \<Rightarrow> Player \<Rightarrow> TokenPosition list \<Rightarrow> TokenPosition \<Rightarrow> string \<Rightarrow> string
     \<Rightarrow> exn + (MoveResponse \<times> Store)" where
  "applyMove now st gs currentPlayer playerTokens token tid tgt =
     (let fromPosition = positionId token;
          tp1 = AList.update (color currentPlayer) (setTokenPosition tid tgt playerTokens)
                  (tokenPositions gs);
          collision = detectCollision tgt (color currentPlayer) tp1
      in case (if captured collision then handleCaptured (capturedTokens collision) tp1 None
               else Inr (tp1, None)) of
           Inl e \<Rightarrow> Inl e
         | Inr (tp2, capturedTokenId) \<Rightarrow>
             (let gs1 = gs\<lparr>tokenPositions := tp2\<rparr>;
                  playerTokens' = (case map_of tp2 (color currentPlayer) of
                                     None \<Rightarrow> [] | Some ts \<Rightarrow> ts);
                  hasWon = checkWinCondition (color currentPlayer) playerTokens';
                  gs2 = (if hasWon then recordWin now gs1 else gs1);
                  extraTurn = (diceValue gs2 = Some 6 \<or> captured collision);
                  gs3 = gs2\<lparr>phase := ROLLING, diceValue := None\<rparr>
              in Inr (\<lparr>success = True,
                       result = Some \<lparr>m_success = True, m_tokenId = tid,
                                      m_fromPosition = fromPosition, m_toPosition = tgt,
                                      m_capturedTokenId = capturedTokenId,
                                      m_extraTurn = extraTurn\<rparr>,
                       error = None\<rparr>,
                      saveGameState st gs3)))"

definition moveToken ::
  "nat \<Rightarrow> Store \<Rightarrow> string \<Rightarrow> string \<Rightarrow> string \<Rightarrow> string \<Rightarrow> exn + (MoveResponse \<times> Store)" where
  "moveToken now st rc pid tid tgt =
     (case getGameState st rc of
        None \<Rightarrow> Inr (moveFailed (Some ''Game not found''), st)
      | Some gs \<Rightarrow>
          if currentPlayerIndex gs \<ge> length (players gs) then Inl TypeError
          else (let currentPlayer = players gs ! currentPlayerIndex gs in
            if playerId currentPlayer \<noteq> pid then Inr (moveFailed (Some ''Not your turn''), st)
            else if phase gs \<noteq> MOVING
              then Inr (moveFailed (Some ''Cannot move token in current phase''), st)
            else (case diceValue gs of
                None \<Rightarrow> Inr (moveFailed (Some ''Dice not rolled''), st)
              | Some d \<Rightarrow>
                  if \<not> isValidTokenId tid (color currentPlayer)
                  then Inr (moveFailed (Some ''Invalid token''), st)
                  else (case map_of (tokenPositions gs) (color currentPlayer) of
                      None \<Rightarrow> Inl TypeError
                    | Some playerTokens \<Rightarrow>
                        (case find (\<lambda>t. tokenId t = tid) playerTokens of
                           None \<Rightarrow> Inr (moveFailed (Some ''Token not found''), st)
                         | Some token \<Rightarrow>
                             (let moveValidation =
                                    canMoveToken (positionId token) d (color currentPlayer) in
                              if \<not> valid moveValidation
                              then Inr (moveFailed (reason moveValidation), st)
                              else if targetPosition moveValidation \<noteq> Some tgt
                              then Inr (moveFailed (Some ''Invalid target position''), st)
                              else applyMove now st gs currentPlayer playerTokens token
                                     tid tgt))))))"

section \<open>Matchmaking (services/MatchmakingService.ts)\<close>

record QueuedPlayer =
  q_playerId :: string
  q_playerName :: string
  preferredPlayers :: nat
  timestamp :: nat

definition findMatchBySize :: "QueuedPlayer list \<Rightarrow> nat \<Rightarrow> QueuedPlayer list option" where
  "findMatchBySize ps n =
     (if length ps < n then None
      else (let eligiblePlayers =
                  filter (\<lambda>p. preferredPlayers p \<ge> n \<or> preferredPlayers p = n) ps
            in if length eligiblePlayers \<ge> n then Some (take n eligiblePlayers)
               else None))"

text \<open>\<open>findMatch\<close> on the queue as \<open>getQueuedPlayers\<close> returns it, oldest first.\<close>

definition findMatch :: "QueuedPlayer list \<Rightarrow> QueuedPlayer list option" where
  "findMatch queuedPlayers =
     (if length queuedPlayers < 2 then None
      else (case findMatchBySize queuedPlayers 4 of
              Some fourPlayerMatch \<Rightarrow> Some fourPlayerMatch
            | None \<Rightarrow>
                (case findMatchBySize queuedPlayers 3 of
                   Some threePlayerMatch \<Rightarrow> Some threePlayerMatch
                 | None \<Rightarrow>
                     (case findMatchBySize queuedPlayers 2 of
                        Some twoPlayerMatch \<Rightarrow> Some twoPlayerMatch
                      | None \<Rightarrow> None))))"

section \<open>Reconnection (services/ReconnectionService.ts, handlers/connectionHandlers.ts, index.ts)\<close>

record PlayerSession =
  s_playerId :: string
  s_playerName :: string
  s_roomCode :: "string option"
  s_socketId :: string
  s_lastActivity :: nat

text \<open>
  The state of the server process that reconnection touches: the game store, the session
  store, the timers pending in the Node event loop (\<open>setTimeout\<close> handle to the player and
  room its callback will remove), the next free handle, and \<open>disconnectionTimers\<close>, the
  private map of the one \<open>ReconnectionService\<close> instance that \<open>connectionHandlers.ts\<close>
  creates at module level.  Time is the order of events: the expiry of a grace period is
  the event \<open>gracePeriodExpires\<close>, which does something only while its timer is pending.
\<close>

record Server =
  games :: Store
  sessions :: "string \<rightharpoonup> PlayerSession"
  timeouts :: "nat \<rightharpoonup> string \<times> string"
  nextTimeout :: nat
  disconnectionTimers :: "string \<rightharpoonup> nat"

definition storePlayerSession ::
  "(string \<rightharpoonup> PlayerSession) \<Rightarrow> nat \<Rightarrow> string \<Rightarrow> string \<Rightarrow> string \<Rightarrow> string option
     \<Rightarrow> (string \<rightharpoonup> PlayerSession)" where
  "storePlayerSession ss now sock pid name rc =
     ss(pid \<mapsto> \<lparr>s_playerId = pid, s_playerName = name, s_roomCode = rc, s_socketId = sock,
                 s_lastActivity = now\<rparr>)"

definition getPlayerSession :: "(string \<rightharpoonup> PlayerSession) \<Rightarrow> string \<Rightarrow> PlayerSession option" where
  "getPlayerSession ss pid = ss pid"

definition updatePlayerConnectionStatus ::
  "Store \<Rightarrow> string \<Rightarrow> string \<Rightarrow> ConnectionStatus \<Rightarrow> Store" where
  "updatePlayerConnectionStatus st rc pid status =
     (case getGameState st rc of
        None \<Rightarrow> st
      | Some gs \<Rightarrow>
          (case findIndex (\<lambda>p. playerId p = pid) (players gs) of
             None \<Rightarrow> st
           | Some playerIndex \<Rightarrow>
               saveGameState st
                 (gs\<lparr>players := (players gs)
                        [playerIndex := (players gs ! playerIndex)\<lparr>connectionStatus := status\<rparr>]\<rparr>)))"

text \<open>\<open>handleDisconnection\<close>, called by \<open>handleDisconnect\<close> on the module-level instance.\<close>

definition handleDisconnection :: "Server \<Rightarrow> string \<Rightarrow> string \<Rightarrow> string \<Rightarrow> Server" where
  "handleDisconnection w sock pid rc =
     (let games' = updatePlayerConnectionStatus (games w) rc pid DISCONNECTED;
          pending = (case disconnectionTimers w pid of
                       None \<Rightarrow> timeouts w
                     | Some existingTimer \<Rightarrow> (timeouts w)(existingTimer := None));
          timer = nextTimeout w
      in w\<lparr>games := games', timeouts := pending(timer \<mapsto> (pid, rc)),
            nextTimeout := timer + 1,
            disconnectionTimers := (disconnectionTimers w)(pid \<mapsto> timer)\<rparr>)"

definition handlePermanentDisconnection :: "Server \<Rightarrow> string \<Rightarrow> string \<Rightarrow> Server" where
  "handlePermanentDisconnection w pid rc =
     (case getGameState (games w) rc of
        None \<Rightarrow> w
      | Some gs \<Rightarrow>
          (let gs1 = gs\<lparr>players := filter (\<lambda>p. playerId p \<noteq> pid) (players gs)\<rparr>;
               games' = (if length (players gs1) > 0
                         then saveGameState (games w)
                                (if currentPlayerIndex gs1 \<ge> length (players gs1)
                                 then gs1\<lparr>currentPlayerIndex := 0\<rparr> else gs1)
                         else games w)
           in w\<lparr>games := games', sessions := (sessions w)(pid := None)\<rparr>))"

text \<open>The callback given to \<open>setTimeout\<close> runs when the grace period is over, unless
  \<open>clearTimeout\<close> removed it before.\<close>

definition gracePeriodExpires :: "Server \<Rightarrow> nat \<Rightarrow> Server" where
  "gracePeriodExpires w timer =
     (case timeouts w timer of
        None \<Rightarrow> w
      | Some (pid, rc) \<Rightarrow>
          (let w1 = handlePermanentDisconnection (w\<lparr>timeouts := (timeouts w)(timer := None)\<rparr>) pid rc
           in w1\<lparr>disconnectionTimers := (disconnectionTimers w1)(pid := None)\<rparr>))"

text \<open>\<open>cancelDisconnectionTimer\<close> of a service instance whose map is \<open>timers\<close>: returns that
  map and the event loop's pending timers.\<close>

definition cancelDisconnectionTimer ::
  "(string \<rightharpoonup> nat) \<Rightarrow> (nat \<rightharpoonup> string \<times> string) \<Rightarrow> string
     \<Rightarrow> (string \<rightharpoonup> nat) \<times> (nat \<rightharpoonup> string \<times> string)" where
  "cancelDisconnectionTimer timers pending pid =
     (case timers pid of
        None \<Rightarrow> (timers, pending)
      | Some timer \<Rightarrow> (timers(pid := None), pending(timer := None)))"

definition hasActiveSession :: "(string \<rightharpoonup> PlayerSession) \<Rightarrow> string \<Rightarrow> string \<Rightarrow> bool" where
  "hasActiveSession ss pid rc =
     (case getPlayerSession ss pid of None \<Rightarrow> False | Some s \<Rightarrow> s_roomCode s = Some rc)"

definition updateSocketId ::
  "(string \<rightharpoonup> PlayerSession) \<Rightarrow> nat \<Rightarrow> string \<Rightarrow> string \<Rightarrow> (string \<rightharpoonup> PlayerSession)" where
  "updateSocketId ss now pid newSocketId =
     (case getPlayerSession ss pid of
        None \<Rightarrow> ss
      | Some s \<Rightarrow> ss(pid \<mapsto> s\<lparr>s_socketId := newSocketId, s_lastActivity := now\<rparr>))"

record ReconnectResponse =
  rc_success :: bool
  rc_gameState :: "GameState option"
  rc_error :: "string option"

text \<open>
  The \<open>reconnect_player\<close> handler of index.ts.  It builds its own service object with
  \<open>new ReconnectionService()\<close>, whose \<open>disconnectionTimers\<close> map starts empty, and calls
  \<open>cancelDisconnectionTimer\<close> on that object.
\<close>

definition reconnect_player ::
  "Server \<Rightarrow> nat \<Rightarrow> string \<Rightarrow> string \<Rightarrow> string \<Rightarrow> ReconnectResponse \<times> Server" where
  "reconnect_player w now sock pid rc =
     (if pid = [] \<or> rc = []
      then (\<lparr>rc_success = False, rc_gameState = None,
              rc_error = Some ''Player ID and room code are required''\<rparr>, w)
      else (let newServiceTimers = (Map.empty :: string \<rightharpoonup> nat) in
        if \<not> hasActiveSession (sessions w) pid rc
        then (\<lparr>rc_success = False, rc_gameState = None,
                rc_error = Some ''No active session found for this room''\<rparr>, w)
        else (let (newServiceTimers', pending) =
                    cancelDisconnectionTimer newServiceTimers (timeouts w) pid;
                  sessions' = updateSocketId (sessions w) now pid sock;
                  games' = updatePlayerConnectionStatus (games w) rc pid CONNECTED
              in (\<lparr>rc_success = True, rc_gameState = getGameState games' rc, rc_error = None\<rparr>,
                  w\<lparr>games := games', sessions := sessions', timeouts := pending\<rparr>))))"

text \<open>Where the scan of \<open>switchTurn\<close> stops: at a player with rank 0, or back at the index it
  started from.\<close>

definition scanStops :: "Player list \<Rightarrow> nat \<Rightarrow> nat \<Rightarrow> bool" where
  "scanStops ps cur r = (rank (ps ! r) = 0 \<or> r = cur)"

section \<open>Describing captures\<close>

text \<open>A token sent to the base slot that \<open>getBasePosition\<close> computes from its id and
  colour.\<close>

definition toBase :: "PlayerColor \<Rightarrow> TokenPosition \<Rightarrow> TokenPosition" where
  "toBase c t = (case getBasePosition (tokenId t) c of
                   None \<Rightarrow> t | Some b \<Rightarrow> t\<lparr>positionId := b\<rparr>)"

text \<open>Every token whose id is in the given set sent to base, all other tokens left as
  they are.\<close>

definition resetAll :: "string set \<Rightarrow> TokenMap \<Rightarrow> TokenMap" where
  "resetAll ids tp =
     map (\<lambda>(c, toks). (c, map (\<lambda>t. if tokenId t \<in> ids then toBase c t else t) toks)) tp"

text \<open>What a capture on cell \<open>tgt\<close> by colour \<open>att\<close> is to do: every token of another colour
  standing on the cell goes to base.\<close>

definition sendHome :: "PlayerColor \<Rightarrow> string \<Rightarrow> TokenMap \<Rightarrow> TokenMap" where
  "sendHome att tgt tp =
     map (\<lambda>(c, toks).
            (c, map (\<lambda>t. if c \<noteq> att \<and> positionId t = tgt then toBase c t else t) toks)) tp"

text \<open>Token lists as \<open>initializeGame\<close> creates them: the ids of one colour are distinct,
  each is the colour initial, \<open>T\<close> and an ordinal 1 to 4, and no colour has two entries.\<close>

definition wellFormedEntry :: "PlayerColor \<times> TokenPosition list \<Rightarrow> bool" where
  "wellFormedEntry e =
     (distinct (map tokenId (snd e))
      \<and> list_all (\<lambda>t. isValidTokenId (tokenId t) (fst e) \<and> last (tokenId t) \<in> set ''1234'')
           (snd e))"

definition wellFormedTokens :: "TokenMap \<Rightarrow> bool" where
  "wellFormedTokens tp = (distinct (map fst tp) \<and> list_all wellFormedEntry tp)"

section \<open>Example states\<close>

definition alice :: Player where
  "alice = \<lparr>playerId = ''p1'', playerName = ''Alice'', color = RED,
             connectionStatus = CONNECTED, isSpectator = False, rank = 0\<rparr>"

definition bob :: Player where
  "bob = \<lparr>playerId = ''p2'', playerName = ''Bob'', color = BLUE,
           connectionStatus = CONNECTED, isSpectator = False, rank = 0\<rparr>"

definition carol :: Player where
  "carol = \<lparr>playerId = ''p3'', playerName = ''Carol'', color = GREEN,
             connectionStatus = CONNECTED, isSpectator = False, rank = 0\<rparr>"

definition gameOf :: "Player list \<Rightarrow> TokenMap \<Rightarrow> GameState" where
  "gameOf ps tp = \<lparr>roomCode = ''ROOM01'', players = ps, currentPlayerIndex = 0,
       diceValue = None, tokenPositions = tp, phase = ROLLING, rankings = [],
       consecutiveSixes = 0, startedAt = Some 0, finishedAt = None\<rparr>"

definition bobFinishedGame :: GameState where
  "bobFinishedGame =
     gameOf [alice, bob\<lparr>rank := 1\<rparr>, carol]
       [(RED, initialTokens RED), (BLUE, initialTokens BLUE), (GREEN, initialTokens GREEN)]"

definition freshGame :: GameState where
  "freshGame = gameOf [alice, bob] [(RED, initialTokens RED), (BLUE, initialTokens BLUE)]"

definition stuckGame :: GameState where
  "stuckGame = gameOf [alice, bob]
     [(RED, [\<lparr>tokenId = ''RT1'', positionId = ''R11''\<rparr>, \<lparr>tokenId = ''RT2'', positionId = ''R11''\<rparr>,
             \<lparr>tokenId = ''RT3'', positionId = ''R11''\<rparr>, \<lparr>tokenId = ''RT4'', positionId = ''R11''\<rparr>]),
      (BLUE, initialTokens BLUE)]"

definition movingGame :: GameState where
  "movingGame = freshGame\<lparr>diceValue := Some 6, phase := MOVING, consecutiveSixes := 1\<rparr>"

definition redTokensAt :: "string \<Rightarrow> TokenPosition list" where
  "redTokensAt p = [\<lparr>tokenId = ''RT1'', positionId = p\<rparr>, \<lparr>tokenId = ''RT2'', positionId = ''R2''\<rparr>,
                    \<lparr>tokenId = ''RT3'', positionId = ''R3''\<rparr>, \<lparr>tokenId = ''RT4'', positionId = ''R4''\<rparr>]"

definition sixGame2 :: GameState where
  "sixGame2 = freshGame\<lparr>tokenPositions := [(RED, redTokensAt ''R10''), (BLUE, initialTokens BLUE)],
                         consecutiveSixes := 1\<rparr>"

definition sixGame3 :: GameState where
  "sixGame3 = sixGame2\<lparr>diceValue := Some 6, phase := MOVING, consecutiveSixes := 2\<rparr>"

definition sixGame4 :: GameState where
  "sixGame4 = freshGame\<lparr>tokenPositions := [(RED, redTokensAt ''G04''), (BLUE, initialTokens BLUE)],
                         consecutiveSixes := 2\<rparr>"

definition queuedA :: QueuedPlayer where
  "queuedA = \<lparr>q_playerId = ''a'', q_playerName = ''A'', preferredPlayers = 4, timestamp = 1\<rparr>"

definition queuedB :: QueuedPlayer where
  "queuedB = \<lparr>q_playerId = ''b'', q_playerName = ''B'', preferredPlayers = 3, timestamp = 2\<rparr>"

definition queuedC :: QueuedPlayer where
  "queuedC = \<lparr>q_playerId = ''c'', q_playerName = ''C'', preferredPlayers = 3, timestamp = 3\<rparr>"

definition lastMoveGame :: GameState where
  "lastMoveGame = freshGame\<lparr>diceValue := Some 1, phase := MOVING,
     tokenPositions :=
       [(RED, [\<lparr>tokenId = ''RT1'', positionId = ''RF''\<rparr>, \<lparr>tokenId = ''RT2'', positionId = ''RF''\<rparr>,
               \<lparr>tokenId = ''RT3'', positionId = ''RF''\<rparr>, \<lparr>tokenId = ''RT4'', positionId = ''R51''\<rparr>]),
        (BLUE, initialTokens BLUE)]\<rparr>"

definition afterLastMove :: GameState where
  "afterLastMove = freshGame\<lparr>players := [alice\<lparr>rank := 1\<rparr>, bob\<lparr>rank := 2\<rparr>],
     tokenPositions :=
       [(RED, [\<lparr>tokenId = ''RT1'', positionId = ''RF''\<rparr>, \<lparr>tokenId = ''RT2'', positionId = ''RF''\<rparr>,
               \<lparr>tokenId = ''RT3'', positionId = ''RF''\<rparr>, \<lparr>tokenId = ''RT4'', positionId = ''RF''\<rparr>]),
        (BLUE, initialTokens BLUE)],
     rankings := [\<lparr>rankPlayerId = ''p1'', rankValue = 1, rankFinishedAt = 5\<rparr>,
                  \<lparr>rankPlayerId = ''p2'', rankValue = 2, rankFinishedAt = 5\<rparr>],
     finishedAt := Some 5\<rparr>"

definition aliceSession :: PlayerSession where
  "aliceSession = \<lparr>s_playerId = ''p1'', s_playerName = ''Alice'', s_roomCode = Some ''ROOM01'',
                    s_socketId = ''sockA'', s_lastActivity = 0\<rparr>"

definition server0 :: Server where
  "server0 = \<lparr>games = [''ROOM01'' \<mapsto> freshGame], sessions = [''p1'' \<mapsto> aliceSession],
               timeouts = Map.empty, nextTimeout = 0, disconnectionTimers = Map.empty\<rparr>"

definition serverDisconnected :: Server where
  "serverDisconnected = handleDisconnection server0 ''sockA'' ''p1'' ''ROOM01''"

definition serverReconnected :: Server where
  "serverReconnected = snd (reconnect_player serverDisconnected 10 ''sockB'' ''p1'' ''ROOM01'')"

definition serverExpired :: Server where
  "serverExpired = gracePeriodExpires serverReconnected 0"

definition captureGame :: GameState where
  "captureGame = freshGame\<lparr>diceValue := Some 2, phase := MOVING,
     tokenPositions :=
       [(RED, redTokensAt ''R20''),
        (BLUE, [\<lparr>tokenId = ''BT1'', positionId = ''R40''\<rparr>, \<lparr>tokenId = ''BT2'', positionId = ''R40''\<rparr>,
                \<lparr>tokenId = ''BT3'', positionId = ''B3''\<rparr>, \<lparr>tokenId = ''BT4'', positionId = ''R22''\<rparr>])]\<rparr>"

definition afterCapture :: GameState where
  "afterCapture = freshGame\<lparr>
     tokenPositions :=
       [(RED, redTokensAt ''R40''),
        (BLUE, [\<lparr>tokenId = ''BT1'', positionId = ''B1''\<rparr>, \<lparr>tokenId = ''BT2'', positionId = ''B2''\<rparr>,
                \<lparr>tokenId = ''BT3'', positionId = ''B3''\<rparr>, \<lparr>tokenId = ''BT4'', positionId = ''R22''\<rparr>])]\<rparr>"

section \<open>Stored states\<close>

text \<open>\<open>deleteGameState\<close> removes the entry of a room; the expiry of its TTL does the same.\<close>

definition deleteGameState :: "Store \<Rightarrow> string \<Rightarrow> Store" where
  "deleteGameState st rc = st(rc := None)"

text \<open>
  The stores that the service can hold: the empty store, and every store written by one of
  the operations that write game states.  \<open>updateGameState\<close>, which nothing in the
  repository calls, is left out.
\<close>

inductive stored :: "Store \<Rightarrow> bool" where
  stored_empty: "stored Map.empty"
| stored_initializeGame: "stored st \<Longrightarrow> stored (snd (initializeGame st now rc ps))"
| stored_rollDice: "stored st \<Longrightarrow> rollDice st rc pid d = Some (Inr (rr, st')) \<Longrightarrow> stored st'"
| stored_moveToken:
    "stored st \<Longrightarrow> moveToken now st rc pid tid tgt = Inr (resp, st') \<Longrightarrow> stored st'"
| stored_switchTurn: "stored st \<Longrightarrow> switchTurn st rc = Some (Inr (g, st')) \<Longrightarrow> stored st'"
| stored_connectionStatus:
    "stored st \<Longrightarrow> stored (updatePlayerConnectionStatus st rc pid status)"
| stored_permanentDisconnection:
    "stored (games w) \<Longrightarrow> stored (games (handlePermanentDisconnection w pid rc))"
| stored_deleteGameState: "stored st \<Longrightarrow> stored (deleteGameState st rc)"

text \<open>What every stored state satisfies: the current index is an index of the player list
  (when that list is not empty), and the token lists are well formed.\<close>

definition stateInvariant :: "GameState \<Rightarrow> bool" where
  "stateInvariant gs =
     ((players gs = [] \<or> currentPlayerIndex gs < length (players gs))
      \<and> wellFormedTokens (tokenPositions gs))"

definition threePlayerGame :: GameState where
  "threePlayerGame =
     gameOf [alice, bob, carol]
       [(RED, initialTokens RED), (BLUE, initialTokens BLUE), (GREEN, initialTokens GREEN)]"

section \<open>Facts about the board tables\<close>

lemma indexOf_distinct:
  "distinct xs \<Longrightarrow> i < length xs \<Longrightarrow> indexOf xs (xs ! i) = Some i"
proof (induction xs arbitrary: i)
  case Nil
  then show ?case by simp
next
  case (Cons y ys)
  show ?case
  proof (cases i)
    case 0
    then show ?thesis by simp
  next
    case (Suc j)
    with Cons.prems have "ys ! j \<in> set ys" "y \<notin> set ys" "j < length ys" "distinct ys"
      by auto
    with Cons.IH[of j] Suc show ?thesis by auto
  qed
qed

lemma TOKEN_PATHS_distinct: "distinct (TOKEN_PATHS c)"
  by (cases c) simp_all

lemma TOKEN_PATHS_length: "length (TOKEN_PATHS c) = 57"
  by (cases c) simp_all

lemma TOKEN_PATHS_not_base: "p \<in> set (TOKEN_PATHS c) \<Longrightarrow> \<not> isTokenInBase p"
  by (cases c) (auto simp: isTokenInBase_def endsWithF_def)

section \<open>Move legality\<close>

text \<open>
  C5.  For every colour and dice value in 1..6: from a base slot the move is valid exactly
  when the dice shows 6, and then the target is the colour's start cell; from the cell at
  index \<open>i\<close> of the colour's path the move is valid exactly when \<open>i + dice\<close> is below the
  path length, and then the target is the path cell at index \<open>i + dice\<close>.  A move past the
  home cell is invalid.
\<close>

theorem canMoveToken_spec:
  assumes "1 \<le> d" "d \<le> 6"
  shows "(isTokenInBase pos \<longrightarrow>
            (valid (canMoveToken pos d c) \<longleftrightarrow> d = 6) \<and>
            (d = 6 \<longrightarrow> targetPosition (canMoveToken pos d c) = Some (START_POSITIONS c)))
       \<and> (i < length (TOKEN_PATHS c) \<and> pos = TOKEN_PATHS c ! i \<longrightarrow>
            (valid (canMoveToken pos d c) \<longleftrightarrow> i + d < length (TOKEN_PATHS c)) \<and>
            (i + d < length (TOKEN_PATHS c) \<longrightarrow>
               targetPosition (canMoveToken pos d c) = Some (TOKEN_PATHS c ! (i + d))))"
proof (intro conjI impI)
  assume "isTokenInBase pos"
  then show "valid (canMoveToken pos d c) \<longleftrightarrow> d = 6"
    by (simp add: canMoveToken_def)
next
  assume "isTokenInBase pos" "d = 6"
  then show "targetPosition (canMoveToken pos d c) = Some (START_POSITIONS c)"
    by (simp add: canMoveToken_def)
next
  assume on_path: "i < length (TOKEN_PATHS c) \<and> pos = TOKEN_PATHS c ! i"
  then have nb: "\<not> isTokenInBase pos"
    using TOKEN_PATHS_not_base nth_mem by blast
  have ix: "indexOf (TOKEN_PATHS c) pos = Some i"
    using on_path indexOf_distinct[OF TOKEN_PATHS_distinct] by simp
  show "valid (canMoveToken pos d c) \<longleftrightarrow> i + d < length (TOKEN_PATHS c)"
    using nb ix by (auto simp: canMoveToken_def getTokenPath_def Let_def)
  assume "i + d < length (TOKEN_PATHS c)"
  then show "targetPosition (canMoveToken pos d c) = Some (TOKEN_PATHS c ! (i + d))"
    using nb ix by (simp add: canMoveToken_def getTokenPath_def Let_def)
qed

theorem canMoveToken_spec_witness:
  "valid (canMoveToken ''R1'' 6 RED)
   \<and> targetPosition (canMoveToken ''R1'' 6 RED) = Some ''R10''
   \<and> valid (canMoveToken ''R41'' 2 RED)
   \<and> targetPosition (canMoveToken ''R41'' 2 RED) = Some ''RF''"
proof -
  have d6: "(1::nat) \<le> 6" "(6::nat) \<le> 6" and d2: "(1::nat) \<le> 2" "(2::nat) \<le> 6"
    by simp_all
  have base: "isTokenInBase ''R1''"
    by (simp add: isTokenInBase_def endsWithF_def)
  have "valid (canMoveToken ''R1'' 6 RED)
        \<and> targetPosition (canMoveToken ''R1'' 6 RED) = Some (START_POSITIONS RED)"
    using canMoveToken_spec[OF d6, of "''R1''" RED 0] base by simp
  moreover have "valid (canMoveToken ''R41'' 2 RED)
        \<and> targetPosition (canMoveToken ''R41'' 2 RED) = Some (TOKEN_PATHS RED ! (54 + 2))"
    using canMoveToken_spec[OF d2, of "''R41''" RED 54] by simp
  ultimately show ?thesis by simp
qed

section \<open>Turn switching\<close>

lemma scanN_sound:
  "nextPlayerScanN k ps cur i = Some r \<Longrightarrow> nextPlayerScan ps cur i = Some r"
proof (induction k arbitrary: i)
  case 0
  then show ?case by simp
next
  case (Suc k)
  show ?case
  proof (cases "ps = []")
    case True
    with Suc.prems show ?thesis by (simp add: nextPlayerScan.simps)
  next
    case False
    let ?nxt = "(i + 1) mod length ps"
    show ?thesis
    proof (cases "rank (ps ! ?nxt) > 0 \<and> ?nxt \<noteq> cur")
      case True
      with Suc.prems False have "nextPlayerScanN k ps cur ?nxt = Some r" by (simp add: Let_def)
      then have "nextPlayerScan ps cur ?nxt = Some r" by (rule Suc.IH)
      with True False show ?thesis by (subst nextPlayerScan.simps) (simp add: Let_def)
    next
      case stop: False
      with Suc.prems False have "r = Inr ?nxt" by (auto simp add: Let_def)
      with stop False show ?thesis by (subst nextPlayerScan.simps) (auto simp add: Let_def)
    qed
  qed
qed

lemma scanN_mono:
  "nextPlayerScanN k ps cur i = Some r \<Longrightarrow> k \<le> k' \<Longrightarrow> nextPlayerScanN k' ps cur i = Some r"
proof (induction k arbitrary: i k')
  case 0
  then show ?case by simp
next
  case (Suc k)
  then obtain m where k': "k' = Suc m" "k \<le> m" by (cases k') auto
  show ?case using Suc.prems(1) Suc.IH[of _ m] k'
    by (auto simp: Let_def split: if_splits)
qed

lemma scanN_least:
  assumes "ps \<noteq> []"
  shows "1 \<le> k \<Longrightarrow> scanStops ps cur ((i + k) mod length ps) \<Longrightarrow>
     (\<forall>j. 1 \<le> j \<and> j < k \<longrightarrow> \<not> scanStops ps cur ((i + j) mod length ps)) \<Longrightarrow>
     nextPlayerScanN k ps cur i = Some (Inr ((i + k) mod length ps))"
proof (induction k arbitrary: i)
  case 0
  then show ?case by simp
next
  case (Suc k)
  let ?n = "length ps"
  let ?nxt = "(i + 1) mod ?n"
  show ?case
  proof (cases "k = 0")
    case True
    with Suc.prems assms show ?thesis by (simp add: scanStops_def Let_def)
  next
    case False
    then have k1: "1 \<le> k" by simp
    have ns: "\<not> scanStops ps cur ?nxt" using Suc.prems(3) False by auto
    have eq: "\<And>j. (?nxt + j) mod ?n = (i + Suc j) mod ?n"
      by (metis Suc_eq_plus1 add.commute add_Suc_right mod_add_right_eq)
    have "nextPlayerScanN k ps cur ?nxt = Some (Inr ((?nxt + k) mod ?n))"
    proof (rule Suc.IH[OF k1])
      show "scanStops ps cur ((?nxt + k) mod ?n)" using Suc.prems(2) eq by simp
      show "\<forall>j. 1 \<le> j \<and> j < k \<longrightarrow> \<not> scanStops ps cur ((?nxt + j) mod ?n)"
        using Suc.prems(3) eq by auto
    qed
    with ns assms eq show ?thesis by (simp add: scanStops_def Let_def)
  qed
qed


lemma scan_least_exists:
  assumes ne: "ps \<noteq> []" and k0: "1 \<le> k0" "scanStops ps cur ((i + k0) mod length ps)"
  shows "\<exists>K. 1 \<le> K \<and> K \<le> k0 \<and> scanStops ps cur ((i + K) mod length ps)
           \<and> (\<forall>j. 1 \<le> j \<and> j < K \<longrightarrow> \<not> scanStops ps cur ((i + j) mod length ps))
           \<and> nextPlayerScanN K ps cur i = Some (Inr ((i + K) mod length ps))"
proof -
  let ?P = "\<lambda>k. 1 \<le> k \<and> scanStops ps cur ((i + k) mod length ps)"
  define K where "K = (LEAST k. ?P k)"
  have PK: "?P K" unfolding K_def using k0 by (rule_tac LeastI[of ?P k0]) simp
  have le: "K \<le> k0" unfolding K_def using k0 by (intro Least_le) simp
  have least: "\<forall>j. 1 \<le> j \<and> j < K \<longrightarrow> \<not> scanStops ps cur ((i + j) mod length ps)"
    unfolding K_def using not_less_Least by blast
  from scanN_least[OF ne, of K cur i] PK least
  have "nextPlayerScanN K ps cur i = Some (Inr ((i + K) mod length ps))" by blast
  with PK le least show ?thesis by blast
qed

lemma reach_index:
  assumes "m < (n::nat)"
  shows "\<exists>k. 1 \<le> k \<and> (cur + k) mod n = m"
proof -
  define q r where "q = cur div n" and "r = cur mod n"
  have r: "r < n" and c: "cur = n * q + r" using assms by (simp_all add: q_def r_def)
  have "n * q + r + (m + n - r) = m + n * (q + 1)"
    using r by (simp add: algebra_simps)
  then have "(cur + (m + n - r)) mod n = m" using assms by (simp add: c)
  moreover have "1 \<le> m + n - r" using r by arith
  ultimately show ?thesis by blast
qed

lemma reach_other:
  assumes "m < (n::nat)" "cur < n" "m \<noteq> cur"
  shows "\<exists>j. 1 \<le> j \<and> j < n \<and> (cur + j) mod n = m"
proof (cases "cur < m")
  case True
  then have "1 \<le> m - cur" "m - cur < n" "(cur + (m - cur)) mod n = m"
    using assms by (arith, arith, simp)
  then show ?thesis by blast
next
  case False
  with assms have lt: "m < cur" by simp
  then have "cur + (m + n - cur) = m + n" using assms by simp
  then have "(cur + (m + n - cur)) mod n = m" using assms by simp
  moreover have "1 \<le> m + n - cur" "m + n - cur < n" using assms lt by simp_all
  ultimately show ?thesis by blast
qed

lemma no_early_return:
  assumes "cur < (n::nat)" "1 \<le> K" "K < n"
  shows "(cur + K) mod n \<noteq> cur"
proof (cases "cur + K < n")
  case True
  then show ?thesis using assms by simp
next
  case False
  then have "(cur + K) mod n = cur + K - n" using assms by (simp add: mod_if)
  then show ?thesis using assms False by simp
qed

lemma switchTurn_Some:
  assumes "getGameState st rc = Some gs"
    and "nextPlayerScan (players gs) (currentPlayerIndex gs) (currentPlayerIndex gs) = Some (Inr r)"
  shows "switchTurn st rc =
     Some (Inr (Some (gs\<lparr>currentPlayerIndex := r, diceValue := None, phase := ROLLING,
                           consecutiveSixes := 0\<rparr>),
                saveGameState st (gs\<lparr>currentPlayerIndex := r, diceValue := None,
                                      phase := ROLLING, consecutiveSixes := 0\<rparr>)))"
  using assms by (simp add: switchTurn_def Let_def)

text \<open>
  C9.  In every stored game state with at least one player of rank 0, \<open>switchTurn\<close> returns
  and the player at the new \<open>currentPlayerIndex\<close> has rank 0.  The new index is reached from
  the old one by \<open>K \<ge> 1\<close> forward steps with wrap-around, every player passed on the way has
  rank above 0, and when no player other than the current one has rank 0 the index stays
  where it was.
\<close>

theorem switchTurn_selects_unfinished:
  assumes gs: "getGameState st rc = Some gs"
    and ex: "\<exists>p \<in> set (players gs). rank p = 0"
  shows "\<exists>gs' K. switchTurn st rc = Some (Inr (Some gs', saveGameState st gs'))
     \<and> players gs' = players gs
     \<and> currentPlayerIndex gs' < length (players gs')
     \<and> rank (players gs' ! currentPlayerIndex gs') = 0
     \<and> 1 \<le> K
     \<and> currentPlayerIndex gs' = (currentPlayerIndex gs + K) mod length (players gs)
     \<and> (\<forall>j. 1 \<le> j \<and> j < K \<longrightarrow>
           rank (players gs ! ((currentPlayerIndex gs + j) mod length (players gs))) > 0)
     \<and> ((\<forall>m < length (players gs). m \<noteq> currentPlayerIndex gs \<longrightarrow> rank (players gs ! m) > 0)
           \<longrightarrow> currentPlayerIndex gs' = currentPlayerIndex gs)"
proof -
  let ?ps = "players gs" and ?cur = "currentPlayerIndex gs"
  let ?n = "length ?ps"
  from ex obtain m where m: "m < ?n" "rank (?ps ! m) = 0"
    by (auto simp: in_set_conv_nth)
  then have ne: "?ps \<noteq> []" by auto
  from reach_index[OF m(1), of ?cur] obtain k0 where k0: "1 \<le> k0" "(?cur + k0) mod ?n = m"
    by blast
  then have "scanStops ?ps ?cur ((?cur + k0) mod ?n)" using m by (simp add: scanStops_def)
  from scan_least_exists[OF ne k0(1) this]
  obtain K where K: "1 \<le> K" "scanStops ?ps ?cur ((?cur + K) mod ?n)"
      "\<forall>j. 1 \<le> j \<and> j < K \<longrightarrow> \<not> scanStops ?ps ?cur ((?cur + j) mod ?n)"
      "nextPlayerScanN K ?ps ?cur ?cur = Some (Inr ((?cur + K) mod ?n))"
    by blast
  let ?r = "(?cur + K) mod ?n"
  let ?gs' = "gs\<lparr>currentPlayerIndex := ?r, diceValue := None, phase := ROLLING,
                  consecutiveSixes := 0\<rparr>"
  have sw: "switchTurn st rc = Some (Inr (Some ?gs', saveGameState st ?gs'))"
    using switchTurn_Some[OF gs scanN_sound[OF K(4)]] .
  have rlt: "?r < ?n" using ne by simp
  have rank0: "rank (?ps ! ?r) = 0"
  proof (rule ccontr)
    assume nz: "rank (?ps ! ?r) \<noteq> 0"
    with K(2) have rc: "?r = ?cur" by (simp add: scanStops_def)
    with rlt have cur: "?cur < ?n" by simp
    from nz rc m have "m \<noteq> ?cur" by auto
    from reach_other[OF m(1) cur this] obtain j where j: "1 \<le> j" "j < ?n" "(?cur + j) mod ?n = m"
      by blast
    then have "scanStops ?ps ?cur ((?cur + j) mod ?n)" using m by (simp add: scanStops_def)
    with K(3) j(1) have "K \<le> j" by (meson not_le_imp_less)
    with j(2) have "K < ?n" by simp
    from no_early_return[OF cur K(1) this] rc show False by simp
  qed
  have skipped: "\<forall>j. 1 \<le> j \<and> j < K \<longrightarrow> rank (?ps ! ((?cur + j) mod ?n)) > 0"
    using K(3) by (auto simp: scanStops_def)
  have unchanged: "(\<forall>m < ?n. m \<noteq> ?cur \<longrightarrow> rank (?ps ! m) > 0) \<longrightarrow> ?r = ?cur"
    using rank0 rlt by auto
  show ?thesis
    apply (rule exI[of _ ?gs'], rule exI[of _ K])
    using sw rlt rank0 K(1) skipped unchanged by simp
qed


lemma scan_returns_in_range:
  assumes ne: "ps \<noteq> []" and cur: "cur < length ps"
  shows "\<exists>r. nextPlayerScanN (length ps) ps cur cur = Some (Inr r)
           \<and> r < length ps \<and> scanStops ps cur r"
proof -
  let ?n = "length ps"
  have n0: "1 \<le> ?n" using ne by (cases ps) auto
  have "(cur + ?n) mod ?n = cur" using cur by simp
  then have "scanStops ps cur ((cur + ?n) mod ?n)" by (simp add: scanStops_def)
  from scan_least_exists[OF ne n0 this]
  obtain K where K: "K \<le> ?n" "scanStops ps cur ((cur + K) mod ?n)"
      "nextPlayerScanN K ps cur cur = Some (Inr ((cur + K) mod ?n))"
    by blast
  have "nextPlayerScanN ?n ps cur cur = Some (Inr ((cur + K) mod ?n))"
    using scanN_mono[OF K(3) K(1)] .
  moreover have "(cur + K) mod ?n < ?n" using ne by simp
  ultimately show ?thesis using K(2) by blast
qed

lemma scan_advances:
  assumes cur: "cur < length ps" and m: "m < length ps" "m \<noteq> cur" "rank (ps ! m) = 0"
  shows "\<exists>r. nextPlayerScan ps cur cur = Some (Inr r) \<and> r < length ps \<and> r \<noteq> cur
           \<and> rank (ps ! r) = 0"
proof -
  let ?n = "length ps"
  from cur have ne: "ps \<noteq> []" by auto
  from reach_other[OF m(1) cur m(2)] obtain j where
    j: "1 \<le> j" "j < ?n" "(cur + j) mod ?n = m" by blast
  then have "scanStops ps cur ((cur + j) mod ?n)" using m(3) by (simp add: scanStops_def)
  from scan_least_exists[OF ne j(1) this]
  obtain K where K: "1 \<le> K" "K \<le> j" "scanStops ps cur ((cur + K) mod ?n)"
      "nextPlayerScanN K ps cur cur = Some (Inr ((cur + K) mod ?n))"
    by blast
  from K(2) j(2) have "K < ?n" by simp
  from no_early_return[OF cur K(1) this] have moved: "(cur + K) mod ?n \<noteq> cur" .
  with K(3) have "rank (ps ! ((cur + K) mod ?n)) = 0" by (simp add: scanStops_def)
  moreover have "(cur + K) mod ?n < ?n" using ne by simp
  ultimately show ?thesis using scanN_sound[OF K(4)] moved by blast
qed

lemma bobFinished_stored:
  "getGameState [''ROOM01'' \<mapsto> bobFinishedGame] ''ROOM01'' = Some bobFinishedGame"
  by (simp add: getGameState_def)

theorem switchTurn_selects_unfinished_witness:
  "(case switchTurn [''ROOM01'' \<mapsto> bobFinishedGame] ''ROOM01'' of
      Some (Inr (Some gs', st')) \<Rightarrow>
        players gs' = players bobFinishedGame \<and> rank (players gs' ! currentPlayerIndex gs') = 0
    | _ \<Rightarrow> False)"
proof -
  have ex: "\<exists>p \<in> set (players bobFinishedGame). rank p = 0"
    by (simp add: bobFinishedGame_def gameOf_def alice_def)
  from switchTurn_selects_unfinished[OF bobFinished_stored ex]
  show ?thesis by auto
qed

section \<open>Moving a token\<close>

lemma map_playerId_update:
  "map playerId (ps[i := (ps ! i)\<lparr>rank := r\<rparr>]) = map playerId ps"
proof (cases "i < length ps")
  case True
  then show ?thesis by (simp add: map_update list_update_same_conv)
next
  case False
  then show ?thesis by (simp add: list_update_beyond)
qed

lemma recordWin_fields:
  "currentPlayerIndex (recordWin now gs) = currentPlayerIndex gs"
  "diceValue (recordWin now gs) = diceValue gs"
  "consecutiveSixes (recordWin now gs) = consecutiveSixes gs"
  "roomCode (recordWin now gs) = roomCode gs"
  "tokenPositions (recordWin now gs) = tokenPositions gs"
  "length (players (recordWin now gs)) = length (players gs)"
  "map playerId (players (recordWin now gs)) = map playerId (players gs)"
  by (simp_all add: recordWin_def Let_def map_playerId_update split: option.splits)

lemma applyMove_Inr:
  assumes "applyMove now st gs cp toks tok tid tgt = Inr (resp, st')"
  shows "\<exists>gsF mr. st' = saveGameState st gsF \<and> resp = \<lparr>success = True, result = Some mr, error = None\<rparr>
      \<and> phase gsF = ROLLING \<and> diceValue gsF = None
      \<and> currentPlayerIndex gsF = currentPlayerIndex gs
      \<and> consecutiveSixes gsF = consecutiveSixes gs
      \<and> roomCode gsF = roomCode gs
      \<and> map playerId (players gsF) = map playerId (players gs)
      \<and> m_tokenId mr = tid \<and> m_fromPosition mr = positionId tok \<and> m_toPosition mr = tgt
      \<and> m_extraTurn mr = (diceValue gs = Some 6 \<or>
            captured (detectCollision tgt (color cp)
               (AList.update (color cp) (setTokenPosition tid tgt toks) (tokenPositions gs))))"
  using assms
  by (auto simp: applyMove_def Let_def recordWin_fields split: sum.splits if_splits prod.splits)

lemma moveToken_Inr:
  assumes "moveToken now st rc pid tid tgt = Inr (resp, st')"
  shows "(\<exists>e. resp = moveFailed e \<and> st' = st) \<or>
         (\<exists>gs toks tok d. getGameState st rc = Some gs
            \<and> currentPlayerIndex gs < length (players gs)
            \<and> playerId (players gs ! currentPlayerIndex gs) = pid
            \<and> phase gs = MOVING \<and> diceValue gs = Some d
            \<and> isValidTokenId tid (color (players gs ! currentPlayerIndex gs))
            \<and> map_of (tokenPositions gs) (color (players gs ! currentPlayerIndex gs)) = Some toks
            \<and> find (\<lambda>t. tokenId t = tid) toks = Some tok
            \<and> valid (canMoveToken (positionId tok) d (color (players gs ! currentPlayerIndex gs)))
            \<and> targetPosition (canMoveToken (positionId tok) d (color (players gs ! currentPlayerIndex gs))) = Some tgt
            \<and> applyMove now st gs (players gs ! currentPlayerIndex gs) toks tok tid tgt = Inr (resp, st'))"
  using assms
  by (auto simp: moveToken_def Let_def split: option.splits if_splits)

lemma moveToken_success_state:
  assumes mv: "moveToken now st rc pid tid tgt = Inr (resp, st')" and ok: "success resp"
  shows "\<exists>gs gsF mr. getGameState st rc = Some gs
      \<and> currentPlayerIndex gs < length (players gs)
      \<and> playerId (players gs ! currentPlayerIndex gs) = pid
      \<and> st' = saveGameState st gsF \<and> result resp = Some mr
      \<and> phase gsF = ROLLING \<and> diceValue gsF = None
      \<and> currentPlayerIndex gsF = currentPlayerIndex gs
      \<and> consecutiveSixes gsF = consecutiveSixes gs
      \<and> roomCode gsF = roomCode gs
      \<and> map playerId (players gsF) = map playerId (players gs)
      \<and> (diceValue gs = Some 6 \<longrightarrow> m_extraTurn mr)"
proof -
  from moveToken_Inr[OF mv] ok obtain gs toks tok d where
    g: "getGameState st rc = Some gs" "currentPlayerIndex gs < length (players gs)"
       "playerId (players gs ! currentPlayerIndex gs) = pid"
       "applyMove now st gs (players gs ! currentPlayerIndex gs) toks tok tid tgt = Inr (resp, st')"
    by (auto simp: moveFailed_def)
  from applyMove_Inr[OF g(4)] g(1,2,3) show ?thesis by auto
qed

lemma saved_lookup: "roomCode g = rc \<Longrightarrow> getGameState (saveGameState st g) rc = Some g"
  by (simp add: getGameState_def saveGameState_def)

lemma initialTokens_eval:
  "initialTokens RED = [\<lparr>tokenId = ''RT1'', positionId = ''R1''\<rparr>, \<lparr>tokenId = ''RT2'', positionId = ''R2''\<rparr>,
                        \<lparr>tokenId = ''RT3'', positionId = ''R3''\<rparr>, \<lparr>tokenId = ''RT4'', positionId = ''R4''\<rparr>]"
  "initialTokens BLUE = [\<lparr>tokenId = ''BT1'', positionId = ''B1''\<rparr>, \<lparr>tokenId = ''BT2'', positionId = ''B2''\<rparr>,
                        \<lparr>tokenId = ''BT3'', positionId = ''B3''\<rparr>, \<lparr>tokenId = ''BT4'', positionId = ''B4''\<rparr>]"
  "initialTokens GREEN = [\<lparr>tokenId = ''GT1'', positionId = ''G1''\<rparr>, \<lparr>tokenId = ''GT2'', positionId = ''G2''\<rparr>,
                        \<lparr>tokenId = ''GT3'', positionId = ''G3''\<rparr>, \<lparr>tokenId = ''GT4'', positionId = ''G4''\<rparr>]"
  "initialTokens YELLOW = [\<lparr>tokenId = ''YT1'', positionId = ''Y1''\<rparr>, \<lparr>tokenId = ''YT2'', positionId = ''Y2''\<rparr>,
                        \<lparr>tokenId = ''YT3'', positionId = ''Y3''\<rparr>, \<lparr>tokenId = ''YT4'', positionId = ''Y4''\<rparr>]"
  by (simp_all add: initialTokens_def enumerate_eq_zip upt_rec)

lemmas example_defs = freshGame_def movingGame_def sixGame2_def sixGame3_def sixGame4_def
  redTokensAt_def gameOf_def alice_def bob_def initialTokens_eval

lemmas roll_defs = rollDice_def getGameState_def saveGameState_def checkValidMoves_def
  canMoveToken_def isTokenInBase_def endsWithF_def getTokenPath_def rolled_def rollFailed_def Let_def

lemmas move_defs = moveToken_def applyMove_def getGameState_def saveGameState_def
  canMoveToken_def isTokenInBase_def endsWithF_def getTokenPath_def isValidTokenId_def
  detectCollision_def isSafeSpot_def SAFE_SPOTS_def checkWinCondition_def moveFailed_def Let_def

text \<open>
  C8.  A \<open>moveToken\<close> call whose \<open>targetPositionId\<close> differs from the target that
  \<open>canMoveToken\<close> computes from the token's stored position and the stored dice value is
  rejected, with the store unchanged; and every call that returns \<open>success = false\<close> (game
  not found, wrong turn, wrong phase, dice unset, invalid token, token not found, invalid
  move, target mismatch) leaves the store as it was.
\<close>

theorem moveToken_failure_atomic:
  "(getGameState st rc = Some gs
      \<and> currentPlayerIndex gs < length (players gs)
      \<and> map_of (tokenPositions gs) (color (players gs ! currentPlayerIndex gs)) = Some toks
      \<and> find (\<lambda>t. tokenId t = tid) toks = Some tok
      \<and> diceValue gs = Some d
      \<and> targetPosition (canMoveToken (positionId tok) d
            (color (players gs ! currentPlayerIndex gs))) \<noteq> Some tgt
     \<longrightarrow> (\<exists>e. moveToken now st rc pid tid tgt = Inr (moveFailed e, st)))
   \<and> (moveToken now st rc pid tid tgt = Inr (resp, st') \<and> \<not> success resp \<longrightarrow> st' = st)"
proof (intro conjI impI)
  assume "getGameState st rc = Some gs
      \<and> currentPlayerIndex gs < length (players gs)
      \<and> map_of (tokenPositions gs) (color (players gs ! currentPlayerIndex gs)) = Some toks
      \<and> find (\<lambda>t. tokenId t = tid) toks = Some tok
      \<and> diceValue gs = Some d
      \<and> targetPosition (canMoveToken (positionId tok) d
            (color (players gs ! currentPlayerIndex gs))) \<noteq> Some tgt"
  then show "\<exists>e. moveToken now st rc pid tid tgt = Inr (moveFailed e, st)"
    by (auto simp: moveToken_def Let_def)
next
  assume a: "moveToken now st rc pid tid tgt = Inr (resp, st') \<and> \<not> success resp"
  from moveToken_Inr[of now st rc pid tid tgt resp st'] a
  show "st' = st"
    by (auto dest!: applyMove_Inr)
qed

theorem moveToken_failure_atomic_witness:
  "moveToken 1 [''ROOM01'' \<mapsto> movingGame] ''ROOM01'' ''p1'' ''RT1'' ''R20''
     = Inr (moveFailed (Some ''Invalid target position''), [''ROOM01'' \<mapsto> movingGame])"
proof -
  let ?st = "[''ROOM01'' \<mapsto> movingGame]"
  let ?toks = "initialTokens RED"
  let ?tok = "\<lparr>tokenId = ''RT1'', positionId = ''R1''\<rparr>"
  have h: "getGameState ?st ''ROOM01'' = Some movingGame
      \<and> currentPlayerIndex movingGame < length (players movingGame)
      \<and> map_of (tokenPositions movingGame)
           (color (players movingGame ! currentPlayerIndex movingGame)) = Some ?toks
      \<and> find (\<lambda>t. tokenId t = ''RT1'') ?toks = Some ?tok
      \<and> diceValue movingGame = Some 6
      \<and> targetPosition (canMoveToken (positionId ?tok) 6
            (color (players movingGame ! currentPlayerIndex movingGame))) \<noteq> Some ''R20''"
    by (simp add: getGameState_def movingGame_def freshGame_def gameOf_def alice_def
          initialTokens_eval canMoveToken_def isTokenInBase_def endsWithF_def)
  from moveToken_failure_atomic[of ?st "''ROOM01''" movingGame ?toks "''RT1''" ?tok 6 "''R20''" 1 "''p1''"] h
  obtain e where e: "moveToken 1 ?st ''ROOM01'' ''p1'' ''RT1'' ''R20'' = Inr (moveFailed e, ?st)"
    by blast
  have "error (fst (projr (moveToken 1 ?st ''ROOM01'' ''p1'' ''RT1'' ''R20''))) = Some ''Invalid target position''"
    by (simp add: moveToken_def getGameState_def movingGame_def freshGame_def gameOf_def alice_def
          initialTokens_eval canMoveToken_def isTokenInBase_def endsWithF_def isValidTokenId_def
          moveFailed_def)
  with e show ?thesis by (simp add: moveFailed_def)
qed

section \<open>Rolling the dice\<close>

lemma rollDice_third_six:
  assumes gs: "getGameState st rc = Some gs"
    and cur: "currentPlayerIndex gs < length (players gs)"
    and pid: "playerId (players gs ! currentPlayerIndex gs) = pid"
    and ph: "phase gs = ROLLING"
    and two: "consecutiveSixes gs = 2"
  shows "\<exists>r. nextPlayerScan (players gs) (currentPlayerIndex gs) (currentPlayerIndex gs) = Some (Inr r)
     \<and> r < length (players gs) \<and> scanStops (players gs) (currentPlayerIndex gs) r
     \<and> rollDice st rc pid 6 =
          Some (Inr (rolled 6 True,
                     saveGameState st (gs\<lparr>currentPlayerIndex := r, diceValue := None,
                                          phase := ROLLING, consecutiveSixes := 0\<rparr>)))"
proof -
  from cur have ne: "players gs \<noteq> []" by auto
  from scan_returns_in_range[OF ne cur]
  obtain r where r: "nextPlayerScanN (length (players gs)) (players gs)
                       (currentPlayerIndex gs) (currentPlayerIndex gs) = Some (Inr r)"
      "r < length (players gs)" "scanStops (players gs) (currentPlayerIndex gs) r"
    by blast
  note sc = scanN_sound[OF r(1)]
  have "rollDice st rc pid 6 = skipViaSwitchTurn st rc 6"
    using gs cur pid ph two by (simp add: rollDice_def Let_def)
  also have "\<dots> = Some (Inr (rolled 6 True,
                     saveGameState st (gs\<lparr>currentPlayerIndex := r, diceValue := None,
                                          phase := ROLLING, consecutiveSixes := 0\<rparr>)))"
    by (simp add: skipViaSwitchTurn_def switchTurn_Some[OF gs sc])
  finally show ?thesis using sc r(2,3) by blast
qed

lemma rollDice_no_legal_move:
  assumes gs: "getGameState st rc = Some gs"
    and cur: "currentPlayerIndex gs < length (players gs)"
    and pid: "playerId (players gs ! currentPlayerIndex gs) = pid"
    and ph: "phase gs = ROLLING"
    and nomove: "checkValidMoves gs (color (players gs ! currentPlayerIndex gs)) d = Inr False"
  shows "\<exists>r. nextPlayerScan (players gs) (currentPlayerIndex gs) (currentPlayerIndex gs) = Some (Inr r)
     \<and> r < length (players gs) \<and> scanStops (players gs) (currentPlayerIndex gs) r
     \<and> rollDice st rc pid d =
          Some (Inr (rolled d True,
                     saveGameState st (gs\<lparr>currentPlayerIndex := r, diceValue := None,
                                          phase := ROLLING, consecutiveSixes := 0\<rparr>)))"
proof -
  from cur have ne: "players gs \<noteq> []" by auto
  from scan_returns_in_range[OF ne cur]
  obtain r where r: "nextPlayerScanN (length (players gs)) (players gs)
                       (currentPlayerIndex gs) (currentPlayerIndex gs) = Some (Inr r)"
      "r < length (players gs)" "scanStops (players gs) (currentPlayerIndex gs) r"
    by blast
  note sc = scanN_sound[OF r(1)]
  have "rollDice st rc pid d = skipViaSwitchTurn st rc d"
    using gs cur pid ph nomove by (simp add: rollDice_def Let_def)
  also have "\<dots> = Some (Inr (rolled d True,
                     saveGameState st (gs\<lparr>currentPlayerIndex := r, diceValue := None,
                                          phase := ROLLING, consecutiveSixes := 0\<rparr>)))"
    by (simp add: skipViaSwitchTurn_def switchTurn_Some[OF gs sc])
  finally show ?thesis using sc r(2,3) by blast
qed

lemma rollDice_kept:
  assumes "rollDice st rc pid d = Some (Inr (rr, st1))" and "r_skipTurn rr = Some False"
  shows "\<exists>gs. getGameState st rc = Some gs
     \<and> currentPlayerIndex gs < length (players gs)
     \<and> playerId (players gs ! currentPlayerIndex gs) = pid
     \<and> phase gs = ROLLING
     \<and> (if d = 6 then consecutiveSixes gs + 1 else 0) \<noteq> 3
     \<and> checkValidMoves gs (color (players gs ! currentPlayerIndex gs)) d = Inr True
     \<and> rr = rolled d False
     \<and> st1 = saveGameState st (gs\<lparr>consecutiveSixes := (if d = 6 then consecutiveSixes gs + 1 else 0),
                                     diceValue := Some d, phase := MOVING\<rparr>)"
  using assms
  by (auto simp: rollDice_def skipViaSwitchTurn_def Let_def rollFailed_def rolled_def
           split: option.splits if_splits sum.splits)

lemma six_run_1:
  "rollDice [''ROOM01'' \<mapsto> freshGame] ''ROOM01'' ''p1'' 6
     = Some (Inr (rolled 6 False, [''ROOM01'' \<mapsto> movingGame]))"
  by (simp add: roll_defs example_defs)

lemma six_run_2:
  "moveToken 1 [''ROOM01'' \<mapsto> movingGame] ''ROOM01'' ''p1'' ''RT1'' ''R10''
     = Inr (\<lparr>success = True,
              result = Some \<lparr>m_success = True, m_tokenId = ''RT1'', m_fromPosition = ''R1'',
                             m_toPosition = ''R10'', m_capturedTokenId = None,
                             m_extraTurn = True\<rparr>,
              error = None\<rparr>, [''ROOM01'' \<mapsto> sixGame2])"
  by (simp add: move_defs example_defs)

lemma six_run_3:
  "rollDice [''ROOM01'' \<mapsto> sixGame2] ''ROOM01'' ''p1'' 6
     = Some (Inr (rolled 6 False, [''ROOM01'' \<mapsto> sixGame3]))"
  by (simp add: roll_defs example_defs numeral_2_eq_2)

lemma six_run_4:
  "moveToken 2 [''ROOM01'' \<mapsto> sixGame3] ''ROOM01'' ''p1'' ''RT1'' ''G04''
     = Inr (\<lparr>success = True,
              result = Some \<lparr>m_success = True, m_tokenId = ''RT1'', m_fromPosition = ''R10'',
                             m_toPosition = ''G04'', m_capturedTokenId = None,
                             m_extraTurn = True\<rparr>,
              error = None\<rparr>, [''ROOM01'' \<mapsto> sixGame4])"
  by (simp add: move_defs example_defs)

lemma two_player_scan: "nextPlayerScan [alice, bob] 0 0 = Some (Inr 1)"
  by (subst nextPlayerScan.simps) (simp add: alice_def bob_def)

text \<open>
  C6.  From a state whose counter of consecutive sixes is 0 (the start of a turn, or a
  roll other than 6), let the current player roll a 6 and make a move, roll a 6 again and
  make a move: the third 6 in a row returns \<open>skipTurn = true\<close>, and the state saved is
  the one \<open>switchTurn\<close> writes: counter back to 0, dice cleared, phase ROLLING, the index
  moved to the next player of rank 0 whenever another player of rank 0 exists (and left in
  place when the scan comes back to it).
\<close>

theorem third_consecutive_six_ends_turn:
  assumes g0: "getGameState st0 rc = Some g0" "roomCode g0 = rc" "consecutiveSixes g0 = 0"
    and r1: "rollDice st0 rc pid 6 = Some (Inr (rr1, st1))" "r_skipTurn rr1 = Some False"
    and m1: "moveToken now1 st1 rc pid tid1 tgt1 = Inr (resp1, st2)" "success resp1"
    and r2: "rollDice st2 rc pid 6 = Some (Inr (rr2, st3))" "r_skipTurn rr2 = Some False"
    and m2: "moveToken now2 st3 rc pid tid2 tgt2 = Inr (resp2, st4)" "success resp2"
  shows "\<exists>g4 r. getGameState st4 rc = Some g4 \<and> consecutiveSixes g4 = 2
     \<and> playerId (players g4 ! currentPlayerIndex g4) = pid
     \<and> nextPlayerScan (players g4) (currentPlayerIndex g4) (currentPlayerIndex g4) = Some (Inr r)
     \<and> r < length (players g4)
     \<and> (rank (players g4 ! r) = 0 \<or> r = currentPlayerIndex g4)
     \<and> ((\<exists>m < length (players g4). m \<noteq> currentPlayerIndex g4 \<and> rank (players g4 ! m) = 0)
           \<longrightarrow> r \<noteq> currentPlayerIndex g4 \<and> rank (players g4 ! r) = 0)
     \<and> rollDice st4 rc pid 6 =
          Some (Inr (rolled 6 True,
                     saveGameState st4 (g4\<lparr>currentPlayerIndex := r, diceValue := None,
                                           phase := ROLLING, consecutiveSixes := 0\<rparr>)))"
proof -
  from rollDice_kept[OF r1] g0 obtain g1 where
    g1: "st1 = saveGameState st0 g1" "roomCode g1 = rc" "consecutiveSixes g1 = 1"
    by auto
  have l1: "getGameState st1 rc = Some g1" using g1 by (simp add: saved_lookup)
  from moveToken_success_state[OF m1] l1 obtain g2 where
    g2: "st2 = saveGameState st1 g2" "roomCode g2 = rc" "consecutiveSixes g2 = 1"
    using g1 by auto
  have l2: "getGameState st2 rc = Some g2" using g2 by (simp add: saved_lookup)
  from rollDice_kept[OF r2] l2 obtain g3 where
    g3: "st3 = saveGameState st2 g3" "roomCode g3 = rc" "consecutiveSixes g3 = 2"
    using g2 by auto
  have l3: "getGameState st3 rc = Some g3" using g3 by (simp add: saved_lookup)
  from moveToken_success_state[OF m2] l3 obtain g4 where
    g4: "st4 = saveGameState st3 g4" "roomCode g4 = rc" "consecutiveSixes g4 = 2"
      "phase g4 = ROLLING" "currentPlayerIndex g4 = currentPlayerIndex g3"
      "map playerId (players g4) = map playerId (players g3)"
      "currentPlayerIndex g3 < length (players g3)"
      "playerId (players g3 ! currentPlayerIndex g3) = pid"
    using g3 by auto
  have l4: "getGameState st4 rc = Some g4" using g4 by (simp add: saved_lookup)
  have len: "length (players g4) = length (players g3)"
    using g4(6) by (metis length_map)
  have cur4: "currentPlayerIndex g4 < length (players g4)" using g4(5,7) len by simp
  have "playerId (players g4 ! currentPlayerIndex g4)
          = map playerId (players g4) ! currentPlayerIndex g4" using cur4 by simp
  also have "\<dots> = playerId (players g3 ! currentPlayerIndex g3)"
    using g4(5,6,7) by simp
  finally have pid4: "playerId (players g4 ! currentPlayerIndex g4) = pid" using g4(8) by simp
  from rollDice_third_six[OF l4 cur4 pid4 g4(4) g4(3)] obtain r where
    r: "nextPlayerScan (players g4) (currentPlayerIndex g4) (currentPlayerIndex g4) = Some (Inr r)"
       "r < length (players g4)" "scanStops (players g4) (currentPlayerIndex g4) r"
       "rollDice st4 rc pid 6 =
          Some (Inr (rolled 6 True,
                     saveGameState st4 (g4\<lparr>currentPlayerIndex := r, diceValue := None,
                                           phase := ROLLING, consecutiveSixes := 0\<rparr>)))"
    by blast
  have adv: "(\<exists>m < length (players g4). m \<noteq> currentPlayerIndex g4 \<and> rank (players g4 ! m) = 0)
           \<longrightarrow> r \<noteq> currentPlayerIndex g4 \<and> rank (players g4 ! r) = 0"
  proof
    assume "\<exists>m < length (players g4). m \<noteq> currentPlayerIndex g4 \<and> rank (players g4 ! m) = 0"
    then obtain m where "m < length (players g4)" "m \<noteq> currentPlayerIndex g4"
        "rank (players g4 ! m) = 0" by blast
    from scan_advances[OF cur4 this] r(1)
    show "r \<noteq> currentPlayerIndex g4 \<and> rank (players g4 ! r) = 0" by auto
  qed
  from r(3) have "rank (players g4 ! r) = 0 \<or> r = currentPlayerIndex g4"
    by (simp add: scanStops_def)
  with l4 g4(3) pid4 r(1,2,4) adv show ?thesis by blast
qed

theorem third_consecutive_six_ends_turn_witness:
  "rollDice [''ROOM01'' \<mapsto> sixGame4] ''ROOM01'' ''p1'' 6
     = Some (Inr (rolled 6 True,
                  [''ROOM01'' \<mapsto> sixGame4\<lparr>currentPlayerIndex := 1, consecutiveSixes := 0\<rparr>]))"
proof -
  have g0: "getGameState [''ROOM01'' \<mapsto> freshGame] ''ROOM01'' = Some freshGame"
      "roomCode freshGame = ''ROOM01''" "consecutiveSixes freshGame = 0"
    by (simp_all add: getGameState_def example_defs)
  have skip: "r_skipTurn (rolled 6 False) = Some False" by (simp add: rolled_def)
  from third_consecutive_six_ends_turn[OF g0 six_run_1 skip six_run_2 _ six_run_3 skip six_run_4]
  obtain g4 r where
    g4: "getGameState [''ROOM01'' \<mapsto> sixGame4] ''ROOM01'' = Some g4"
    and sc: "nextPlayerScan (players g4) (currentPlayerIndex g4) (currentPlayerIndex g4) = Some (Inr r)"
    and roll: "rollDice [''ROOM01'' \<mapsto> sixGame4] ''ROOM01'' ''p1'' 6 =
          Some (Inr (rolled 6 True,
                     saveGameState [''ROOM01'' \<mapsto> sixGame4]
                        (g4\<lparr>currentPlayerIndex := r, diceValue := None,
                             phase := ROLLING, consecutiveSixes := 0\<rparr>)))"
    by auto
  from g4 have eq: "g4 = sixGame4" by (simp add: getGameState_def)
  have "players sixGame4 = [alice, bob]" "currentPlayerIndex sixGame4 = 0"
    by (simp_all add: sixGame4_def freshGame_def gameOf_def)
  with sc eq two_player_scan have "r = 1" by simp
  with roll eq show ?thesis
    by (simp add: saveGameState_def sixGame4_def freshGame_def gameOf_def)
qed

text \<open>
  C2 as stated fails: with all four red tokens on R11 a 6 overshoots the home cell, the
  roll is skipped and the turn passes from player 0 to player 1.
\<close>

theorem six_without_legal_move_counterexample:
  "phase stuckGame = ROLLING
   \<and> playerId (players stuckGame ! currentPlayerIndex stuckGame) = ''p1''
   \<and> currentPlayerIndex stuckGame = 0
   \<and> rollDice [''ROOM01'' \<mapsto> stuckGame] ''ROOM01'' ''p1'' 6
       = Some (Inr (rolled 6 True, [''ROOM01'' \<mapsto> stuckGame\<lparr>currentPlayerIndex := 1\<rparr>]))"
proof -
  have g: "getGameState [''ROOM01'' \<mapsto> stuckGame] ''ROOM01'' = Some stuckGame"
    by (simp add: getGameState_def)
  have f: "currentPlayerIndex stuckGame < length (players stuckGame)"
      "playerId (players stuckGame ! currentPlayerIndex stuckGame) = ''p1''"
      "phase stuckGame = ROLLING"
      "checkValidMoves stuckGame (color (players stuckGame ! currentPlayerIndex stuckGame)) 6
         = Inr False"
    by (simp_all add: stuckGame_def gameOf_def alice_def checkValidMoves_def canMoveToken_def
          isTokenInBase_def getTokenPath_def)
  have ps: "players stuckGame = [alice, bob]" "currentPlayerIndex stuckGame = 0"
    by (simp_all add: stuckGame_def gameOf_def)
  from rollDice_no_legal_move[OF g f] two_player_scan ps
  have "rollDice [''ROOM01'' \<mapsto> stuckGame] ''ROOM01'' ''p1'' 6 =
          Some (Inr (rolled 6 True,
                     saveGameState [''ROOM01'' \<mapsto> stuckGame]
                        (stuckGame\<lparr>currentPlayerIndex := 1, diceValue := None,
                             phase := ROLLING, consecutiveSixes := 0\<rparr>)))"
    by auto
  then show ?thesis using f(2,3) ps(2)
    by (simp add: saveGameState_def stuckGame_def gameOf_def)
qed

section \<open>Matchmaking\<close>

lemma findMatchBySize_eq:
  "findMatchBySize ps n =
     (if n \<le> length (filter (\<lambda>p. n \<le> preferredPlayers p) ps)
      then Some (take n (filter (\<lambda>p. n \<le> preferredPlayers p) ps)) else None)"
proof -
  have le: "length (filter (\<lambda>p. n \<le> preferredPlayers p) ps) \<le> length ps" by simp
  have eq: "filter (\<lambda>p. n \<le> preferredPlayers p \<or> preferredPlayers p = n) ps
              = filter (\<lambda>p. n \<le> preferredPlayers p) ps"
    by (rule filter_cong) auto
  show ?thesis
  proof (cases "length ps < n")
    case True
    with le have "\<not> n \<le> length (filter (\<lambda>p. n \<le> preferredPlayers p) ps)" by arith
    with True show ?thesis by (simp add: findMatchBySize_def)
  next
    case False
    then show ?thesis by (simp add: findMatchBySize_def Let_def eq)
  qed
qed

text \<open>
  C3 as stated fails: with one queued player preferring 4 and two preferring 3, no match
  of 4 forms, and the match of 3 that forms contains the player who prefers 4, although
  only two players prefer exactly 3.
\<close>

theorem findMatch_mixed_preference_counterexample:
  "findMatch [queuedA, queuedB, queuedC] = Some [queuedA, queuedB, queuedC]
   \<and> preferredPlayers queuedA = 4
   \<and> length (filter (\<lambda>p. preferredPlayers p = 3) [queuedA, queuedB, queuedC]) = 2"
  by (simp add: findMatch_def findMatchBySize_def queuedA_def queuedB_def queuedC_def)

text \<open>
  C3, as amended.  \<open>findMatch\<close> forms a match of size N (2, 3 or 4) from the queued
  players whose \<open>preferredPlayers\<close> is at least N: the match is the N oldest such players
  in queue order, no larger size has enough such players, and no match forms exactly
  when no size N has N queued players preferring at least N.
\<close>

theorem findMatch_at_least:
  "(findMatch q = Some m \<longrightarrow>
      length m \<in> {2, 3, 4}
      \<and> m = take (length m) (filter (\<lambda>p. length m \<le> preferredPlayers p) q)
      \<and> (\<forall>p \<in> set m. length m \<le> preferredPlayers p)
      \<and> (\<forall>N \<in> {2, 3, 4}. length m < N \<longrightarrow>
            length (filter (\<lambda>p. N \<le> preferredPlayers p) q) < N))
   \<and> (findMatch q = None \<longleftrightarrow>
        (\<forall>N \<in> {2, 3, 4}. length (filter (\<lambda>p. N \<le> preferredPlayers p) q) < N))"
proof -
  let ?E = "\<lambda>N. filter (\<lambda>p. N \<le> preferredPlayers p) q"
  have short: "length q < 2 \<Longrightarrow> length (?E N) < 2" for N
    using length_filter_le[of "\<lambda>p. N \<le> preferredPlayers p" q] by (rule le_less_trans)
  have fm: "findMatch q =
     (if 4 \<le> length (?E 4) then Some (take 4 (?E 4))
      else if 3 \<le> length (?E 3) then Some (take 3 (?E 3))
      else if 2 \<le> length (?E 2) then Some (take 2 (?E 2)) else None)"
    using short[of 4] short[of 3] short[of 2]
    by (auto simp: findMatch_def findMatchBySize_eq)
  have mem: "\<And>N p. p \<in> set (take N (?E N)) \<Longrightarrow> N \<le> preferredPlayers p"
    by (auto dest: in_set_takeD)
  show ?thesis
  proof (intro conjI impI)
    assume m: "findMatch q = Some m"
    then consider (four) "4 \<le> length (?E 4)" "m = take 4 (?E 4)"
      | (three) "\<not> 4 \<le> length (?E 4)" "3 \<le> length (?E 3)" "m = take 3 (?E 3)"
      | (two) "\<not> 4 \<le> length (?E 4)" "\<not> 3 \<le> length (?E 3)" "2 \<le> length (?E 2)" "m = take 2 (?E 2)"
      unfolding fm by (auto split: if_splits)
    then have "length m \<in> {2, 3, 4}
      \<and> m = take (length m) (?E (length m))
      \<and> (\<forall>N \<in> {2, 3, 4}. length m < N \<longrightarrow> length (?E N) < N)"
    proof cases
      case four
      then have "length m = 4" by simp
      with four show ?thesis by simp
    next
      case three
      then have "length m = 3" by simp
      with three show ?thesis by simp
    next
      case two
      then have "length m = 2" by simp
      with two show ?thesis by simp
    qed
    then show "length m \<in> {2, 3, 4}"
      and "m = take (length m) (?E (length m))"
      and "\<forall>N \<in> {2, 3, 4}. length m < N \<longrightarrow> length (?E N) < N"
      by blast+
    then show "\<forall>p \<in> set m. length m \<le> preferredPlayers p"
      using mem[of _ "length m"] by metis
  next
    show "findMatch q = None \<longleftrightarrow> (\<forall>N \<in> {2, 3, 4}. length (?E N) < N)"
      unfolding fm by auto
  qed
qed

theorem findMatch_at_least_witness:
  "findMatch [queuedA, queuedB, queuedC] = Some [queuedA, queuedB, queuedC]
   \<and> 3 \<le> preferredPlayers queuedA \<and> 3 \<le> preferredPlayers queuedB
   \<and> 3 \<le> preferredPlayers queuedC
   \<and> findMatch [queuedB] = None"
proof -
  have m: "findMatch [queuedA, queuedB, queuedC] = Some [queuedA, queuedB, queuedC]"
    by (simp add: findMatch_def findMatchBySize_def queuedA_def queuedB_def queuedC_def)
  from findMatch_at_least[of "[queuedA, queuedB, queuedC]" "[queuedA, queuedB, queuedC]"] m
  have "\<forall>p \<in> set [queuedA, queuedB, queuedC]. length [queuedA, queuedB, queuedC] \<le> preferredPlayers p"
    by blast
  moreover have "findMatch [queuedB] = None"
    using findMatch_at_least[of "[queuedB]" "[]"] by (simp add: queuedB_def)
  ultimately show ?thesis using m by simp
qed

section \<open>Winning and finishing\<close>

lemma finished_scan: "nextPlayerScan [alice\<lparr>rank := 1\<rparr>, bob\<lparr>rank := 2\<rparr>] 0 0 = Some (Inr 0)"
  by (subst nextPlayerScan.simps, simp add: alice_def bob_def,
      subst nextPlayerScan.simps, simp add: alice_def bob_def)

text \<open>
  C1.  In a game of two players, red has three tokens home and the fourth one cell before
  home; the dice shows 1.  The move records the win, gives the other player rank 2 and
  sets \<open>finishedAt\<close>, but the phase written to the store is ROLLING, not FINISHED: the
  assignment \<open>phase = FINISHED\<close> of the win branch is overwritten by the reset of phase and
  dice at the end of \<open>moveToken\<close>.  The next \<open>rollDice\<close> on the finished game is accepted.
\<close>

theorem finishing_move_stores_rolling:
  "moveToken 5 [''ROOM01'' \<mapsto> lastMoveGame] ''ROOM01'' ''p1'' ''RT4'' ''RF''
     = Inr (\<lparr>success = True,
              result = Some \<lparr>m_success = True, m_tokenId = ''RT4'', m_fromPosition = ''R51'',
                             m_toPosition = ''RF'', m_capturedTokenId = None,
                             m_extraTurn = False\<rparr>,
              error = None\<rparr>, [''ROOM01'' \<mapsto> afterLastMove])
   \<and> phase afterLastMove = ROLLING
   \<and> rollDice [''ROOM01'' \<mapsto> afterLastMove] ''ROOM01'' ''p1'' 3
       = Some (Inr (rolled 3 True, [''ROOM01'' \<mapsto> afterLastMove]))"
proof -
  have mv: "moveToken 5 [''ROOM01'' \<mapsto> lastMoveGame] ''ROOM01'' ''p1'' ''RT4'' ''RF''
     = Inr (\<lparr>success = True,
              result = Some \<lparr>m_success = True, m_tokenId = ''RT4'', m_fromPosition = ''R51'',
                             m_toPosition = ''RF'', m_capturedTokenId = None,
                             m_extraTurn = False\<rparr>,
              error = None\<rparr>, [''ROOM01'' \<mapsto> afterLastMove])"
    by (simp add: move_defs example_defs lastMoveGame_def afterLastMove_def recordWin_def
          numeral_2_eq_2)
  have ph: "phase afterLastMove = ROLLING"
    by (simp add: afterLastMove_def example_defs)
  have g: "getGameState [''ROOM01'' \<mapsto> afterLastMove] ''ROOM01'' = Some afterLastMove"
    by (simp add: getGameState_def)
  have f: "currentPlayerIndex afterLastMove < length (players afterLastMove)"
      "playerId (players afterLastMove ! currentPlayerIndex afterLastMove) = ''p1''"
      "checkValidMoves afterLastMove
         (color (players afterLastMove ! currentPlayerIndex afterLastMove)) 3 = Inr False"
    by (simp_all add: afterLastMove_def example_defs checkValidMoves_def canMoveToken_def
          isTokenInBase_def endsWithF_def getTokenPath_def)
  have ps: "players afterLastMove = [alice\<lparr>rank := 1\<rparr>, bob\<lparr>rank := 2\<rparr>]"
      "currentPlayerIndex afterLastMove = 0"
    by (simp_all add: afterLastMove_def freshGame_def gameOf_def)
  from rollDice_no_legal_move[OF g f(1,2) ph f(3)] finished_scan ps
  have "rollDice [''ROOM01'' \<mapsto> afterLastMove] ''ROOM01'' ''p1'' 3 =
          Some (Inr (rolled 3 True,
                     saveGameState [''ROOM01'' \<mapsto> afterLastMove]
                        (afterLastMove\<lparr>currentPlayerIndex := 0, diceValue := None,
                             phase := ROLLING, consecutiveSixes := 0\<rparr>)))"
    by auto
  then have "rollDice [''ROOM01'' \<mapsto> afterLastMove] ''ROOM01'' ''p1'' 3
       = Some (Inr (rolled 3 True, [''ROOM01'' \<mapsto> afterLastMove]))"
    by (simp add: saveGameState_def afterLastMove_def freshGame_def gameOf_def)
  with mv ph show ?thesis by simp
qed

section \<open>Reconnection\<close>

lemma reconnect_player_keeps_timeouts:
  "timeouts (snd (reconnect_player w now sock pid rc)) = timeouts w"
  by (simp add: reconnect_player_def cancelDisconnectionTimer_def Let_def)

lemmas reconnect_defs = handleDisconnection_def reconnect_player_def gracePeriodExpires_def
  handlePermanentDisconnection_def updatePlayerConnectionStatus_def cancelDisconnectionTimer_def
  hasActiveSession_def getPlayerSession_def updateSocketId_def getGameState_def saveGameState_def
  Let_def

lemma serverDisconnected_eval:
  "serverDisconnected =
     \<lparr>games = [''ROOM01'' \<mapsto> freshGame\<lparr>players := [alice\<lparr>connectionStatus := DISCONNECTED\<rparr>, bob]\<rparr>],
      sessions = [''p1'' \<mapsto> aliceSession],
      timeouts = [0 \<mapsto> (''p1'', ''ROOM01'')], nextTimeout = 1,
      disconnectionTimers = [''p1'' \<mapsto> 0]\<rparr>"
  by (simp add: serverDisconnected_def server0_def reconnect_defs freshGame_def gameOf_def
        alice_def bob_def)

lemma serverReconnected_eval:
  "reconnect_player serverDisconnected 10 ''sockB'' ''p1'' ''ROOM01'' =
     (\<lparr>rc_success = True, rc_gameState = Some freshGame, rc_error = None\<rparr>,
      \<lparr>games = [''ROOM01'' \<mapsto> freshGame],
      sessions = [''p1'' \<mapsto> aliceSession\<lparr>s_socketId := ''sockB'', s_lastActivity := 10\<rparr>],
      timeouts = [0 \<mapsto> (''p1'', ''ROOM01'')], nextTimeout = 1,
      disconnectionTimers = [''p1'' \<mapsto> 0]\<rparr>)"
  by (simp add: serverDisconnected_eval reconnect_defs freshGame_def gameOf_def
        alice_def bob_def aliceSession_def)

text \<open>
  C4.  A player disconnects, which starts timer 0 on the service instance of
  \<open>connectionHandlers.ts\<close>, and reconnects before the timer fires.  The reconnect succeeds,
  rebinds the session to the new socket and sets the status back to CONNECTED, but the
  timer is still pending afterwards: \<open>cancelDisconnectionTimer\<close> ran on a new service
  object whose timer map is empty.  When the grace period is over the reconnected player
  is removed from \<open>players\<close> and the session is deleted.
\<close>

theorem reconnected_player_still_removed:
  "rc_success (fst (reconnect_player serverDisconnected 10 ''sockB'' ''p1'' ''ROOM01''))
   \<and> map_option s_socketId (sessions serverReconnected ''p1'') = Some ''sockB''
   \<and> map_option players (games serverReconnected ''ROOM01'') = Some [alice, bob]
   \<and> timeouts serverReconnected 0 = Some (''p1'', ''ROOM01'')
   \<and> map_option players (games serverExpired ''ROOM01'') = Some [bob]
   \<and> sessions serverExpired ''p1'' = None"
  unfolding serverExpired_def serverReconnected_def serverReconnected_eval
  by (simp add: gracePeriodExpires_def handlePermanentDisconnection_def getGameState_def
        saveGameState_def freshGame_def gameOf_def alice_def bob_def aliceSession_def)

section \<open>Captures\<close>

lemma findIndex_None: "findIndex P xs = None \<longleftrightarrow> (\<forall>x \<in> set xs. \<not> P x)"
  by (induction xs) auto

lemma findIndex_Some: "findIndex P xs = Some i \<Longrightarrow> i < length xs \<and> P (xs ! i)"
  by (induction xs arbitrary: i) (auto split: if_splits)

lemma update_at_found:
  "distinct (map f xs) \<Longrightarrow> findIndex (\<lambda>t. f t = a) xs = Some i \<Longrightarrow>
     xs[i := g (xs ! i)] = map (\<lambda>t. if f t = a then g t else t) xs"
proof (induction xs arbitrary: i)
  case Nil
  then show ?case by simp
next
  case (Cons x xs)
  show ?case
  proof (cases "f x = a")
    case True
    with Cons.prems have i: "i = 0" and "\<forall>y \<in> set xs. f y \<noteq> a" by (auto simp: image_iff)
    then have "map (\<lambda>t. if f t = a then g t else t) xs = xs" by (simp add: map_idI)
    with True i show ?thesis by simp
  next
    case False
    with Cons.prems obtain j where j: "i = Suc j" "findIndex (\<lambda>t. f t = a) xs = Some j"
      by auto
    with Cons.IH[of j] Cons.prems(1) False show ?thesis by simp
  qed
qed

lemma colorInitial_inj: "colorInitial c = colorInitial c' \<Longrightarrow> c = c'"
  by (cases c; cases c') simp_all

lemma valid_id_owner:
  "isValidTokenId tid c \<Longrightarrow> isValidTokenId tid c' \<Longrightarrow> c = c'"
  by (auto simp: isValidTokenId_def dest: colorInitial_inj)

lemma base_of_valid_id:
  assumes "isValidTokenId tid c" and "last tid \<in> set ''1234''"
  shows "\<exists>k < 4. tid = [colorInitial c, CHR ''T'', digitChar (k + 1)]
            \<and> getBasePosition tid c = Some (BASE_POSITIONS c ! k)"
proof -
  from assms(1) have "length tid = 3" by (simp add: isValidTokenId_def)
  then obtain a b x where abx: "tid = [a, b, x]"
    by (auto simp: numeral_3_eq_3 length_Suc_conv)
  with assms(1) have tid: "tid = [colorInitial c, CHR ''T'', x]"
    by (simp add: isValidTokenId_def)
  from assms(2) tid consider "x = CHR ''1''" | "x = CHR ''2''" | "x = CHR ''3''" | "x = CHR ''4''"
    by auto
  then show ?thesis
  proof cases
    case 1
    with tid have "tid = [colorInitial c, CHR ''T'', digitChar (0 + 1)]
        \<and> getBasePosition tid c = Some (BASE_POSITIONS c ! 0)"
      by (cases c) (simp_all add: getBasePosition_def digitOf_def)
    moreover have "(0::nat) < 4" by simp
    ultimately show ?thesis by blast
  next
    case 2
    with tid have "tid = [colorInitial c, CHR ''T'', digitChar (1 + 1)]
        \<and> getBasePosition tid c = Some (BASE_POSITIONS c ! 1)"
      by (cases c) (simp_all add: getBasePosition_def digitOf_def)
    moreover have "(1::nat) < 4" by simp
    ultimately show ?thesis by blast
  next
    case 3
    with tid have "tid = [colorInitial c, CHR ''T'', digitChar (2 + 1)]
        \<and> getBasePosition tid c = Some (BASE_POSITIONS c ! 2)"
      by (cases c) (simp_all add: getBasePosition_def digitOf_def)
    moreover have "(2::nat) < 4" by simp
    ultimately show ?thesis by blast
  next
    case 4
    with tid have "tid = [colorInitial c, CHR ''T'', digitChar (3 + 1)]
        \<and> getBasePosition tid c = Some (BASE_POSITIONS c ! 3)"
      by (cases c) (simp_all add: getBasePosition_def digitOf_def)
    moreover have "(3::nat) < 4" by simp
    ultimately show ?thesis by blast
  qed
qed

lemma toBase_tokenId [simp]: "tokenId (toBase c t) = tokenId t"
  by (simp add: toBase_def split: option.splits)

lemma toBase_idem [simp]: "toBase c (toBase c t) = toBase c t"
  by (simp add: toBase_def split: option.splits)

lemma resetAll_Nil [simp]: "resetAll S [] = []"
  by (simp add: resetAll_def)

lemma resetAll_Cons:
  "resetAll S ((c, toks) # rest) =
     (c, map (\<lambda>t. if tokenId t \<in> S then toBase c t else t) toks) # resetAll S rest"
  by (simp add: resetAll_def)

lemma resetAll_keys [simp]: "map fst (resetAll S tp) = map fst tp"
  by (induction tp) (auto simp: resetAll_Cons)

lemma resetAll_absent:
  "(\<forall>e \<in> set tp. \<forall>t \<in> set (snd e). tokenId t \<notin> S) \<Longrightarrow> resetAll S tp = tp"
  by (induction tp) (auto simp: resetAll_Cons map_idI)

lemma resetAll_empty [simp]: "resetAll {} tp = tp"
  by (rule resetAll_absent) simp

lemma resetAll_insert: "resetAll S (resetAll {a} tp) = resetAll (insert a S) tp"
  by (induction tp) (auto simp: resetAll_Cons)

lemma wellFormedTokens_Cons:
  "wellFormedTokens (e # rest) \<longleftrightarrow>
     fst e \<notin> fst ` set rest \<and> wellFormedEntry e \<and> wellFormedTokens rest"
  by (auto simp: wellFormedTokens_def)

lemma wellFormedEntry_ids:
  "map tokenId toks' = map tokenId toks \<Longrightarrow> wellFormedEntry (c, toks) \<Longrightarrow>
     wellFormedEntry (c, toks')"
proof -
  assume eq: "map tokenId toks' = map tokenId toks" and wf: "wellFormedEntry (c, toks)"
  have "list_all (\<lambda>t. isValidTokenId (tokenId t) c \<and> last (tokenId t) \<in> set ''1234'') toks'
        \<longleftrightarrow> list_all (\<lambda>i. isValidTokenId i c \<and> last i \<in> set ''1234'') (map tokenId toks')"
    by (simp add: list_all_iff)
  also have "\<dots> \<longleftrightarrow> list_all (\<lambda>i. isValidTokenId i c \<and> last i \<in> set ''1234'') (map tokenId toks)"
    by (simp only: eq)
  also have "\<dots>" using wf by (simp add: wellFormedEntry_def list_all_iff)
  finally show ?thesis using wf eq by (simp add: wellFormedEntry_def)
qed

lemma resetAll_wellFormed:
  "wellFormedTokens tp \<Longrightarrow> wellFormedTokens (resetAll S tp)"
proof (induction tp)
  case Nil
  then show ?case by simp
next
  case (Cons e rest)
  obtain c toks where e: "e = (c, toks)" by (cases e)
  have ids: "map tokenId (map (\<lambda>t. if tokenId t \<in> S then toBase c t else t) toks)
               = map tokenId toks"
    by (induction toks) auto
  have keys: "fst ` set (resetAll S rest) = fst ` set rest"
    using resetAll_keys[of S rest] by (metis set_map)
  from Cons e show ?case
    by (simp add: resetAll_Cons wellFormedTokens_Cons keys wellFormedEntry_ids[OF ids])
qed

lemma wellFormed_entry:
  "wellFormedTokens tp \<Longrightarrow> e \<in> set tp \<Longrightarrow> wellFormedEntry e"
  by (simp add: wellFormedTokens_def list_all_iff)

lemma wellFormed_token:
  "wellFormedEntry (c, toks) \<Longrightarrow> t \<in> set toks \<Longrightarrow>
     isValidTokenId (tokenId t) c \<and> last (tokenId t) \<in> set ''1234''"
  by (simp add: wellFormedEntry_def list_all_iff)

lemma token_owner:
  assumes wf: "wellFormedTokens tp"
    and e1: "(c, toks) \<in> set tp" "t \<in> set toks"
    and e2: "(c', toks') \<in> set tp" "t' \<in> set toks'"
    and same: "tokenId t' = tokenId t"
  shows "c' = c \<and> toks' = toks \<and> t' = t"
proof -
  from wellFormed_token[OF wellFormed_entry[OF wf e1(1)] e1(2)]
       wellFormed_token[OF wellFormed_entry[OF wf e2(1)] e2(2)] same
  have c: "c' = c" by (auto dest: valid_id_owner)
  from wf have "distinct (map fst tp)" by (simp add: wellFormedTokens_def)
  with e1(1) e2(1) c have toks: "toks' = toks" by (metis eq_key_imp_eq_value)
  from wellFormed_entry[OF wf e1(1)] have "distinct (map tokenId toks)"
    by (simp add: wellFormedEntry_def)
  then have "inj_on tokenId (set toks)" by (simp add: distinct_map)
  with e1(2) e2(2) toks same have "t' = t" by (auto dest: inj_onD)
  with c toks show ?thesis by simp
qed

lemma resetCaptured_owner:
  assumes "wellFormedTokens tp" "(c, toks) \<in> set tp" "t \<in> set toks" "tokenId t = tid"
  shows "resetCaptured tid tp = Some (Inr (resetAll {tid} tp))"
  using assms
proof (induction tp)
  case Nil
  then show ?case by simp
next
  case (Cons e rest)
  obtain c0 toks0 where e: "e = (c0, toks0)" by (cases e)
  from Cons.prems(1) e have wf0: "wellFormedEntry (c0, toks0)" and wfr: "wellFormedTokens rest"
    and fresh: "c0 \<notin> fst ` set rest"
    by (simp_all add: wellFormedTokens_Cons)
  show ?case
  proof (cases "findIndex (\<lambda>x. tokenId x = tid) toks0")
    case None
    then have no: "\<forall>x \<in> set toks0. tokenId x \<noteq> tid" by (simp add: findIndex_None)
    with Cons.prems e have "(c, toks) \<in> set rest" by auto
    from Cons.IH[OF wfr this Cons.prems(3,4)] None no e show ?thesis
      by (simp add: resetAll_Cons map_idI)
  next
    case (Some i)
    from findIndex_Some[OF Some] have i: "i < length toks0" "tokenId (toks0 ! i) = tid" by simp_all
    then have mem: "toks0 ! i \<in> set toks0" by simp
    from wellFormed_token[OF wf0 mem] i(2)
    have valid: "isValidTokenId tid c0" "last tid \<in> set ''1234''" by simp_all
    from base_of_valid_id[OF valid] obtain b where b: "getBasePosition tid c0 = Some b" by blast
    have tb: "toBase c0 (toks0 ! i) = (toks0 ! i)\<lparr>positionId := b\<rparr>"
      using b i(2) by (simp add: toBase_def)
    from wf0 have "distinct (map tokenId toks0)" by (simp add: wellFormedEntry_def)
    from update_at_found[OF this Some, of "toBase c0"] tb
    have upd: "toks0[i := (toks0 ! i)\<lparr>positionId := b\<rparr>]
                 = map (\<lambda>x. if tokenId x = tid then toBase c0 x else x) toks0"
      by simp
    have "\<forall>e' \<in> set rest. \<forall>x \<in> set (snd e'). tokenId x \<notin> {tid}"
    proof (intro ballI)
      fix e' x assume e': "e' \<in> set rest" and x: "x \<in> set (snd e')"
      obtain c' toks' where ce: "e' = (c', toks')" by (cases e')
      from e' fresh ce have ne: "c' \<noteq> c0" by force
      from wellFormed_token[OF wellFormed_entry[OF wfr e'[unfolded ce]]] x ce
      have "isValidTokenId (tokenId x) c'" by simp
      with valid(1) ne show "tokenId x \<notin> {tid}" by (auto dest: valid_id_owner)
    qed
    then have "resetAll {tid} rest = rest" by (rule resetAll_absent)
    with Some b upd e show ?thesis by (simp add: resetAll_Cons)
  qed
qed

lemma resetAll_keeps_ids:
  assumes "(c, toks) \<in> set tp" "t \<in> set toks"
  shows "\<exists>toks' t'. (c, toks') \<in> set (resetAll S tp) \<and> t' \<in> set toks' \<and> tokenId t' = tokenId t"
proof -
  let ?f = "\<lambda>x. if tokenId x \<in> S then toBase c x else x"
  from assms(1) have "(c, map ?f toks) \<in> set (resetAll S tp)"
    by (force simp: resetAll_def)
  moreover have "?f t \<in> set (map ?f toks)" using assms(2) by simp
  moreover have "tokenId (?f t) = tokenId t" by simp
  ultimately show ?thesis by blast
qed

lemma handleCaptured_resets:
  assumes "wellFormedTokens tp"
    and "\<forall>ct \<in> set cts. \<exists>c toks t. (c, toks) \<in> set tp \<and> t \<in> set toks \<and> tokenId t = tokenId ct"
  shows "handleCaptured cts tp cap =
           Inr (resetAll (tokenId ` set cts) tp,
                if cts = [] then cap else Some (tokenId (last cts)))"
  using assms
proof (induction cts arbitrary: tp cap)
  case Nil
  then show ?case by simp
next
  case (Cons ct cts)
  from Cons.prems(2) obtain c toks t where
    own: "(c, toks) \<in> set tp" "t \<in> set toks" "tokenId t = tokenId ct"
    by auto
  note r = resetCaptured_owner[OF Cons.prems(1) own]
  let ?tp' = "resetAll {tokenId ct} tp"
  have wf': "wellFormedTokens ?tp'" using Cons.prems(1) by (rule resetAll_wellFormed)
  have ex': "\<forall>x \<in> set cts. \<exists>c toks t. (c, toks) \<in> set ?tp' \<and> t \<in> set toks
                \<and> tokenId t = tokenId x"
  proof
    fix x assume "x \<in> set cts"
    with Cons.prems(2) obtain c toks t where
      "(c, toks) \<in> set tp" "t \<in> set toks" "tokenId t = tokenId x"
      by auto
    from resetAll_keeps_ids[OF this(1,2), of "{tokenId ct}"] this(3)
    show "\<exists>c toks t. (c, toks) \<in> set ?tp' \<and> t \<in> set toks \<and> tokenId t = tokenId x"
      by metis
  qed
  from Cons.IH[OF wf' ex', of "Some (tokenId ct)"] r
  show ?case by (simp add: resetAll_insert)
qed

lemma in_collectCaptured:
  "t \<in> set (collectCaptured tgt att tp) \<longleftrightarrow>
     (\<exists>c toks. (c, toks) \<in> set tp \<and> c \<noteq> att \<and> t \<in> set toks \<and> positionId t = tgt)"
proof (induction tp)
  case Nil
  then show ?case by simp
next
  case (Cons e rest)
  obtain c0 toks0 where e: "e = (c0, toks0)" by (cases e)
  show ?case
  proof (cases "c0 = att")
    case True
    with Cons.IH e show ?thesis by auto
  next
    case False
    with Cons.IH e show ?thesis by auto
  qed
qed

lemma resetAll_captured:
  assumes wf: "wellFormedTokens tp"
  shows "resetAll (tokenId ` set (collectCaptured tgt att tp)) tp = sendHome att tgt tp"
proof -
  let ?S = "tokenId ` set (collectCaptured tgt att tp)"
  have key: "tokenId t \<in> ?S \<longleftrightarrow> c \<noteq> att \<and> positionId t = tgt"
    if e: "(c, toks) \<in> set tp" and t: "t \<in> set toks" for c toks t
  proof
    assume "tokenId t \<in> ?S"
    then obtain t' c' toks' where
      t': "(c', toks') \<in> set tp" "c' \<noteq> att" "t' \<in> set toks'" "positionId t' = tgt"
          "tokenId t' = tokenId t"
      by (auto simp: in_collectCaptured)
    from token_owner[OF wf e t t'(1,3,5)] t'(2,4) show "c \<noteq> att \<and> positionId t = tgt"
      by simp
  next
    assume "c \<noteq> att \<and> positionId t = tgt"
    with e t have "t \<in> set (collectCaptured tgt att tp)"
      by (auto simp: in_collectCaptured)
    then show "tokenId t \<in> ?S" by simp
  qed
  show ?thesis unfolding resetAll_def sendHome_def
  proof (rule map_cong[OF refl])
    fix e assume mem: "e \<in> set tp"
    obtain c toks where e: "e = (c, toks)" by (cases e)
    have "map (\<lambda>t. if tokenId t \<in> ?S then toBase c t else t) toks
        = map (\<lambda>t. if c \<noteq> att \<and> positionId t = tgt then toBase c t else t) toks"
      by (rule map_cong[OF refl]) (use key[OF mem[unfolded e]] in auto)
    then show "(case e of (c, toks) \<Rightarrow>
                  (c, map (\<lambda>t. if tokenId t \<in> ?S then toBase c t else t) toks))
             = (case e of (c, toks) \<Rightarrow>
                  (c, map (\<lambda>t. if c \<noteq> att \<and> positionId t = tgt then toBase c t else t) toks))"
      by (simp add: e)
  qed
qed

lemma setTokenPosition_ids [simp]:
  "map tokenId (setTokenPosition tid p toks) = map tokenId toks"
  by (induction toks) auto

lemma set_update_subset: "set (AList.update k v al) \<subseteq> insert (k, v) (set al)"
  by (induction al) auto

lemma place_wellFormed:
  assumes wf: "wellFormedTokens tp" and lk: "map_of tp att = Some toks"
  shows "wellFormedTokens (AList.update att (setTokenPosition tid tgt toks) tp)"
proof -
  let ?tp1 = "AList.update att (setTokenPosition tid tgt toks) tp"
  from lk have mem: "(att, toks) \<in> set tp" by (rule map_of_SomeD)
  then have "att \<in> set (map fst tp)" by force
  then have keys: "map fst ?tp1 = map fst tp" by (simp add: update_keys)
  have new: "wellFormedEntry (att, setTokenPosition tid tgt toks)"
    using wellFormedEntry_ids[OF setTokenPosition_ids wellFormed_entry[OF wf mem]] .
  have "\<forall>e \<in> set ?tp1. wellFormedEntry e"
  proof
    fix e assume "e \<in> set ?tp1"
    with set_update_subset[of att "setTokenPosition tid tgt toks" tp]
    have "e = (att, setTokenPosition tid tgt toks) \<or> e \<in> set tp" by auto
    with new wf show "wellFormedEntry e" by (auto dest: wellFormed_entry)
  qed
  with wf keys show ?thesis by (simp add: wellFormedTokens_def list_all_iff)
qed

lemma captures_resolved:
  assumes wf1: "wellFormedTokens tp1"
  shows "(if captured (detectCollision tgt att tp1)
          then handleCaptured (capturedTokens (detectCollision tgt att tp1)) tp1 None
          else Inr (tp1, None))
       = Inr (if isSafeSpot tgt then tp1 else sendHome att tgt tp1,
              if captured (detectCollision tgt att tp1)
              then Some (tokenId (last (capturedTokens (detectCollision tgt att tp1))))
              else None)"
proof (cases "isSafeSpot tgt")
  case True
  then show ?thesis by (simp add: detectCollision_def)
next
  case False
  let ?cs = "collectCaptured tgt att tp1"
  have col: "detectCollision tgt att tp1 = \<lparr>captured = (?cs \<noteq> []), capturedTokens = ?cs\<rparr>"
    using False by (simp add: detectCollision_def Let_def)
  show ?thesis
  proof (cases "?cs = []")
    case True
    from resetAll_captured[OF wf1, of tgt att] True have "sendHome att tgt tp1 = tp1" by simp
    with True False col show ?thesis by simp
  next
    case ne: False
    have "\<forall>ct \<in> set ?cs. \<exists>c toks t. (c, toks) \<in> set tp1 \<and> t \<in> set toks
             \<and> tokenId t = tokenId ct"
    proof
      fix ct assume "ct \<in> set ?cs"
      then obtain c toks where "(c, toks) \<in> set tp1" "ct \<in> set toks"
        unfolding in_collectCaptured by blast
      then show "\<exists>c toks t. (c, toks) \<in> set tp1 \<and> t \<in> set toks \<and> tokenId t = tokenId ct"
        by blast
    qed
    from handleCaptured_resets[OF wf1 this, of None] ne
    have "handleCaptured ?cs tp1 None = Inr (sendHome att tgt tp1, Some (tokenId (last ?cs)))"
      by (simp add: resetAll_captured[OF wf1])
    with ne False col show ?thesis by simp
  qed
qed

lemma applyMove_tokens:
  assumes wf1: "wellFormedTokens (AList.update (color cp) (setTokenPosition tid tgt toks)
                                     (tokenPositions gs))"
  shows "\<exists>gs' mr. applyMove now st gs cp toks tok tid tgt
                    = Inr (\<lparr>success = True, result = Some mr, error = None\<rparr>, saveGameState st gs')
     \<and> tokenPositions gs' =
         (if isSafeSpot tgt
          then AList.update (color cp) (setTokenPosition tid tgt toks) (tokenPositions gs)
          else sendHome (color cp) tgt
                 (AList.update (color cp) (setTokenPosition tid tgt toks) (tokenPositions gs)))
     \<and> m_capturedTokenId mr =
         (let collision = detectCollision tgt (color cp)
                 (AList.update (color cp) (setTokenPosition tid tgt toks) (tokenPositions gs))
          in if captured collision then Some (tokenId (last (capturedTokens collision))) else None)
     \<and> m_extraTurn mr =
         (diceValue gs = Some 6 \<or>
          captured (detectCollision tgt (color cp)
                 (AList.update (color cp) (setTokenPosition tid tgt toks) (tokenPositions gs))))
     \<and> phase gs' = ROLLING \<and> diceValue gs' = None
     \<and> currentPlayerIndex gs' = currentPlayerIndex gs
     \<and> length (players gs') = length (players gs)
     \<and> roomCode gs' = roomCode gs"
proof -
  let ?tp1 = "AList.update (color cp) (setTokenPosition tid tgt toks) (tokenPositions gs)"
  let ?col = "detectCollision tgt (color cp) ?tp1"
  let ?tp2 = "if isSafeSpot tgt then ?tp1 else sendHome (color cp) tgt ?tp1"
  let ?cap = "if captured ?col then Some (tokenId (last (capturedTokens ?col))) else None"
  let ?gs1 = "gs\<lparr>tokenPositions := ?tp2\<rparr>"
  let ?won = "checkWinCondition (color cp)
                (case map_of ?tp2 (color cp) of None \<Rightarrow> [] | Some ts \<Rightarrow> ts)"
  let ?gs2 = "if ?won then recordWin now ?gs1 else ?gs1"
  let ?gs3 = "?gs2\<lparr>phase := ROLLING, diceValue := None\<rparr>"
  let ?mr = "\<lparr>m_success = True, m_tokenId = tid, m_fromPosition = positionId tok,
              m_toPosition = tgt, m_capturedTokenId = ?cap,
              m_extraTurn = (diceValue ?gs2 = Some 6 \<or> captured ?col)\<rparr>"
  have run: "applyMove now st gs cp toks tok tid tgt
          = Inr (\<lparr>success = True, result = Some ?mr, error = None\<rparr>, saveGameState st ?gs3)"
    unfolding applyMove_def Let_def captures_resolved[OF wf1] by simp
  have f: "tokenPositions ?gs3 = ?tp2" "diceValue ?gs2 = diceValue gs"
      "currentPlayerIndex ?gs3 = currentPlayerIndex gs"
      "phase ?gs3 = ROLLING" "diceValue ?gs3 = None"
      "length (players ?gs3) = length (players gs)"
      "roomCode ?gs3 = roomCode gs"
    by (simp_all add: recordWin_fields)
  have "m_capturedTokenId ?mr = ?cap" "m_extraTurn ?mr = (diceValue gs = Some 6 \<or> captured ?col)"
    using f(2) by simp_all
  with run f(1,3,4,5,6,7) show ?thesis unfolding Let_def by blast
qed

lemma own_base_slot:
  assumes wf: "wellFormedTokens tp" and e: "(c, ts) \<in> set tp" and t: "t \<in> set ts"
  shows "\<exists>k < 4. tokenId t = [colorInitial c, CHR ''T'', digitChar (k + 1)]
           \<and> toBase c t = t\<lparr>positionId := BASE_POSITIONS c ! k\<rparr>"
proof -
  from wellFormed_token[OF wellFormed_entry[OF wf e] t]
  have "isValidTokenId (tokenId t) c" "last (tokenId t) \<in> set ''1234''" by simp_all
  from base_of_valid_id[OF this] show ?thesis by (auto simp: toBase_def)
qed

lemma canMoveToken_target_valid:
  "targetPosition (canMoveToken p d c) = Some t \<Longrightarrow> valid (canMoveToken p d c)"
  by (auto simp: canMoveToken_def Let_def split: if_splits option.splits)

text \<open>A request that passes every check of \<open>moveToken\<close> on a well-formed state is applied:
  the call returns \<open>success = true\<close> and saves the state described.\<close>

lemma moveToken_applied:
  assumes gs: "getGameState st rc = Some gs"
    and cur: "currentPlayerIndex gs < length (players gs)"
    and pid: "playerId (players gs ! currentPlayerIndex gs) = pid"
    and ph: "phase gs = MOVING"
    and d: "diceValue gs = Some d"
    and wf: "wellFormedTokens (tokenPositions gs)"
    and lk: "map_of (tokenPositions gs) (color (players gs ! currentPlayerIndex gs)) = Some toks"
    and fnd: "find (\<lambda>t. tokenId t = tid) toks = Some tok"
    and tg: "targetPosition (canMoveToken (positionId tok) d
               (color (players gs ! currentPlayerIndex gs))) = Some tgt"
  shows "\<exists>gs' mr. moveToken now st rc pid tid tgt
                    = Inr (\<lparr>success = True, result = Some mr, error = None\<rparr>, saveGameState st gs')
     \<and> tokenPositions gs' =
         (if isSafeSpot tgt
          then AList.update (color (players gs ! currentPlayerIndex gs))
                 (setTokenPosition tid tgt toks) (tokenPositions gs)
          else sendHome (color (players gs ! currentPlayerIndex gs)) tgt
                 (AList.update (color (players gs ! currentPlayerIndex gs))
                    (setTokenPosition tid tgt toks) (tokenPositions gs)))
     \<and> m_capturedTokenId mr =
         (let collision = detectCollision tgt (color (players gs ! currentPlayerIndex gs))
                 (AList.update (color (players gs ! currentPlayerIndex gs))
                    (setTokenPosition tid tgt toks) (tokenPositions gs))
          in if captured collision then Some (tokenId (last (capturedTokens collision))) else None)
     \<and> m_extraTurn mr =
         (diceValue gs = Some 6 \<or>
          captured (detectCollision tgt (color (players gs ! currentPlayerIndex gs))
                 (AList.update (color (players gs ! currentPlayerIndex gs))
                    (setTokenPosition tid tgt toks) (tokenPositions gs))))
     \<and> phase gs' = ROLLING \<and> diceValue gs' = None
     \<and> currentPlayerIndex gs' = currentPlayerIndex gs
     \<and> length (players gs') = length (players gs)
     \<and> roomCode gs' = roomCode gs"
proof -
  let ?cp = "players gs ! currentPlayerIndex gs"
  from fnd have tok: "tok \<in> set toks" "tokenId tok = tid"
    by (auto simp: find_Some_iff)
  from lk have mem: "(color ?cp, toks) \<in> set (tokenPositions gs)" by (rule map_of_SomeD)
  from wellFormed_token[OF wellFormed_entry[OF wf mem] tok(1)] tok(2)
  have vid: "isValidTokenId tid (color ?cp)" by simp
  note v = canMoveToken_target_valid[OF tg]
  have "moveToken now st rc pid tid tgt = applyMove now st gs ?cp toks tok tid tgt"
    using gs cur pid ph d vid lk fnd v tg by (simp add: moveToken_def Let_def)
  with applyMove_tokens[OF place_wellFormed[OF wf lk, of tid tgt], of now st tok]
  show ?thesis by simp
qed

text \<open>
  C7.  For every applied move, that is every request that passes the checks of
  \<open>moveToken\<close> on well-formed token lists: the call returns \<open>success = true\<close>, and with
  \<open>tp1\<close> the token map after the mover's token is placed on the target: on a safe spot
  nothing is captured (\<open>captured = false\<close>, empty list, no captured id) and no other token
  changes; on any other cell the captured tokens are exactly the tokens of other colours
  standing on the target, and in the saved state exactly these stand on the base slot of
  their own colour numbered by their ordinal, all other tokens unchanged; and a move that
  captures reports the extra turn and leaves the same player to roll.
\<close>

theorem capture_rule:
  assumes gs: "getGameState st rc = Some gs"
    and cur: "currentPlayerIndex gs < length (players gs)"
    and att: "att = color (players gs ! currentPlayerIndex gs)"
    and pid: "playerId (players gs ! currentPlayerIndex gs) = pid"
    and ph: "phase gs = MOVING"
    and d: "diceValue gs = Some d"
    and wf: "wellFormedTokens (tokenPositions gs)"
    and lk: "map_of (tokenPositions gs) att = Some toks"
    and fnd: "find (\<lambda>t. tokenId t = tid) toks = Some tok"
    and tg: "targetPosition (canMoveToken (positionId tok) d att) = Some tgt"
  shows "\<exists>mr gs'. moveToken now st rc pid tid tgt
                    = Inr (\<lparr>success = True, result = Some mr, error = None\<rparr>, saveGameState st gs')
     \<and> (let tp1 = AList.update att (setTokenPosition tid tgt toks) (tokenPositions gs);
             collision = detectCollision tgt att tp1
         in (isSafeSpot tgt \<longrightarrow>
               \<not> captured collision \<and> capturedTokens collision = []
               \<and> m_capturedTokenId mr = None \<and> tokenPositions gs' = tp1)
          \<and> (\<not> isSafeSpot tgt \<longrightarrow>
               set (capturedTokens collision)
                 = {t. \<exists>c ts. (c, ts) \<in> set tp1 \<and> c \<noteq> att \<and> t \<in> set ts \<and> positionId t = tgt}
               \<and> captured collision = (capturedTokens collision \<noteq> [])
               \<and> tokenPositions gs' = sendHome att tgt tp1)
          \<and> (\<forall>c ts t. (c, ts) \<in> set tp1 \<and> t \<in> set ts \<longrightarrow>
                (\<exists>k < 4. tokenId t = [colorInitial c, CHR ''T'', digitChar (k + 1)]
                   \<and> toBase c t = t\<lparr>positionId := BASE_POSITIONS c ! k\<rparr>))
          \<and> (captured collision \<longrightarrow>
                m_extraTurn mr \<and> phase gs' = ROLLING \<and> diceValue gs' = None
                \<and> currentPlayerIndex gs' = currentPlayerIndex gs))"
proof -
  let ?tp1 = "AList.update att (setTokenPosition tid tgt toks) (tokenPositions gs)"
  let ?col = "detectCollision tgt att ?tp1"
  have wf1: "wellFormedTokens ?tp1" using wf lk by (rule place_wellFormed)
  from moveToken_applied[OF gs cur pid ph d wf lk[unfolded att] fnd tg[unfolded att], of now]
  obtain gs' mr where
    run: "moveToken now st rc pid tid tgt
            = Inr (\<lparr>success = True, result = Some mr, error = None\<rparr>, saveGameState st gs')"
    and tp: "tokenPositions gs' = (if isSafeSpot tgt then ?tp1 else sendHome att tgt ?tp1)"
    and cap: "m_capturedTokenId mr =
                (if captured ?col then Some (tokenId (last (capturedTokens ?col))) else None)"
    and ex: "m_extraTurn mr = (diceValue gs = Some 6 \<or> captured ?col)"
    and rest: "phase gs' = ROLLING" "diceValue gs' = None"
              "currentPlayerIndex gs' = currentPlayerIndex gs"
    unfolding att Let_def by blast
  have safe: "isSafeSpot tgt \<longrightarrow>
               \<not> captured ?col \<and> capturedTokens ?col = []
               \<and> m_capturedTokenId mr = None \<and> tokenPositions gs' = ?tp1"
    using tp cap by (simp add: detectCollision_def)
  have unsafe: "\<not> isSafeSpot tgt \<longrightarrow>
               set (capturedTokens ?col)
                 = {t. \<exists>c ts. (c, ts) \<in> set ?tp1 \<and> c \<noteq> att \<and> t \<in> set ts \<and> positionId t = tgt}
               \<and> captured ?col = (capturedTokens ?col \<noteq> [])
               \<and> tokenPositions gs' = sendHome att tgt ?tp1"
  proof -
    have "set (collectCaptured tgt att ?tp1)
            = {t. \<exists>c ts. (c, ts) \<in> set ?tp1 \<and> c \<noteq> att \<and> t \<in> set ts \<and> positionId t = tgt}"
      by (rule set_eqI) (simp add: in_collectCaptured)
    with tp show ?thesis by (simp add: detectCollision_def Let_def)
  qed
  have base: "\<forall>c ts t. (c, ts) \<in> set ?tp1 \<and> t \<in> set ts \<longrightarrow>
                (\<exists>k < 4. tokenId t = [colorInitial c, CHR ''T'', digitChar (k + 1)]
                   \<and> toBase c t = t\<lparr>positionId := BASE_POSITIONS c ! k\<rparr>)"
    using own_base_slot[OF wf1] by blast
  have turn: "captured ?col \<longrightarrow>
                m_extraTurn mr \<and> phase gs' = ROLLING \<and> diceValue gs' = None
                \<and> currentPlayerIndex gs' = currentPlayerIndex gs"
    using ex rest by simp
  from run safe unsafe base turn show ?thesis
    unfolding Let_def by (intro exI[of _ mr] exI[of _ gs']) simp
qed

lemma capture_run:
  "moveToken 7 [''ROOM01'' \<mapsto> captureGame] ''ROOM01'' ''p1'' ''RT1'' ''R40''
     = Inr (\<lparr>success = True,
              result = Some \<lparr>m_success = True, m_tokenId = ''RT1'', m_fromPosition = ''R20'',
                             m_toPosition = ''R40'', m_capturedTokenId = Some ''BT2'',
                             m_extraTurn = True\<rparr>,
              error = None\<rparr>, [''ROOM01'' \<mapsto> afterCapture])"
  by (simp add: move_defs example_defs captureGame_def afterCapture_def getBasePosition_def
        digitOf_def)

theorem capture_rule_witness:
  "moveToken 7 [''ROOM01'' \<mapsto> captureGame] ''ROOM01'' ''p1'' ''RT1'' ''R40''
     = Inr (\<lparr>success = True,
              result = Some \<lparr>m_success = True, m_tokenId = ''RT1'', m_fromPosition = ''R20'',
                             m_toPosition = ''R40'', m_capturedTokenId = Some ''BT2'',
                             m_extraTurn = True\<rparr>,
              error = None\<rparr>, [''ROOM01'' \<mapsto> afterCapture])
   \<and> tokenPositions afterCapture
       = sendHome RED ''R40''
           (AList.update RED (setTokenPosition ''RT1'' ''R40'' (redTokensAt ''R20''))
              (tokenPositions captureGame))
   \<and> tokenPositions afterCapture
       = [(RED, redTokensAt ''R40''),
          (BLUE, [\<lparr>tokenId = ''BT1'', positionId = ''B1''\<rparr>, \<lparr>tokenId = ''BT2'', positionId = ''B2''\<rparr>,
                  \<lparr>tokenId = ''BT3'', positionId = ''B3''\<rparr>, \<lparr>tokenId = ''BT4'', positionId = ''R22''\<rparr>])]"
proof -
  let ?st = "[''ROOM01'' \<mapsto> captureGame]"
  let ?tok = "\<lparr>tokenId = ''RT1'', positionId = ''R20''\<rparr>"
  have gs: "getGameState ?st ''ROOM01'' = Some captureGame" by (simp add: getGameState_def)
  have wf: "wellFormedTokens (tokenPositions captureGame)"
    by (simp add: wellFormedTokens_def wellFormedEntry_def captureGame_def example_defs
          isValidTokenId_def)
  have f: "currentPlayerIndex captureGame < length (players captureGame)"
      "RED = color (players captureGame ! currentPlayerIndex captureGame)"
      "playerId (players captureGame ! currentPlayerIndex captureGame) = ''p1''"
      "phase captureGame = MOVING" "diceValue captureGame = Some 2"
      "map_of (tokenPositions captureGame) RED = Some (redTokensAt ''R20'')"
    by (simp_all add: captureGame_def example_defs)
  have fnd: "find (\<lambda>t. tokenId t = ''RT1'') (redTokensAt ''R20'') = Some ?tok"
    by (simp add: redTokensAt_def)
  have tg: "targetPosition (canMoveToken (positionId ?tok) 2 RED) = Some ''R40''"
    by (simp add: canMoveToken_def isTokenInBase_def getTokenPath_def)
  have unsafe: "\<not> isSafeSpot ''R40''" by (simp add: isSafeSpot_def SAFE_SPOTS_def)
  from capture_rule[OF gs f(1,2,3,4,5) wf f(6) fnd tg, of 7] unsafe
  obtain mr gs' where
    run: "moveToken 7 ?st ''ROOM01'' ''p1'' ''RT1'' ''R40''
            = Inr (\<lparr>success = True, result = Some mr, error = None\<rparr>, saveGameState ?st gs')"
    and tp: "tokenPositions gs' = sendHome RED ''R40''
               (AList.update RED (setTokenPosition ''RT1'' ''R40'' (redTokensAt ''R20''))
                  (tokenPositions captureGame))"
    by (auto simp: Let_def)
  from run capture_run have st: "[''ROOM01'' \<mapsto> afterCapture] = saveGameState ?st gs'"
    by simp
  have ne: "afterCapture \<noteq> captureGame"
    by (simp add: afterCapture_def captureGame_def example_defs)
  from st have "Some afterCapture = saveGameState ?st gs' ''ROOM01''"
    by (metis fun_upd_same)
  with ne have "gs' = afterCapture"
    by (auto simp: saveGameState_def split: if_splits)
  with tp have "tokenPositions afterCapture = sendHome RED ''R40''
               (AList.update RED (setTokenPosition ''RT1'' ''R40'' (redTokensAt ''R20''))
                  (tokenPositions captureGame))"
    by simp
  moreover have "tokenPositions afterCapture
       = [(RED, redTokensAt ''R40''),
          (BLUE, [\<lparr>tokenId = ''BT1'', positionId = ''B1''\<rparr>, \<lparr>tokenId = ''BT2'', positionId = ''B2''\<rparr>,
                  \<lparr>tokenId = ''BT3'', positionId = ''B3''\<rparr>, \<lparr>tokenId = ''BT4'', positionId = ''R22''\<rparr>])]"
    by (simp add: afterCapture_def)
  ultimately show ?thesis using capture_run by simp
qed

lemma initialTokens_wellFormed: "wellFormedEntry (c, initialTokens c)"
  by (cases c) (simp_all add: wellFormedEntry_def initialTokens_eval isValidTokenId_def)

lemma update_wellFormed:
  assumes wf: "wellFormedTokens tp" and e: "wellFormedEntry (c, toks)"
  shows "wellFormedTokens (AList.update c toks tp)"
proof -
  have "\<forall>x \<in> set (AList.update c toks tp). wellFormedEntry x"
  proof
    fix x assume "x \<in> set (AList.update c toks tp)"
    with set_update_subset[of c toks tp] have "x = (c, toks) \<or> x \<in> set tp" by auto
    with e wf show "wellFormedEntry x" by (auto dest: wellFormed_entry)
  qed
  moreover from wf have "distinct (map fst (AList.update c toks tp))"
    by (simp add: wellFormedTokens_def distinct_update)
  ultimately show ?thesis by (simp add: wellFormedTokens_def list_all_iff)
qed

lemma initial_fold_wellFormed:
  "wellFormedTokens tp \<Longrightarrow>
     wellFormedTokens (foldl (\<lambda>tp p. AList.update (color p) (initialTokens (color p)) tp) tp ps)"
  by (induction ps arbitrary: tp) (simp_all add: update_wellFormed initialTokens_wellFormed)

lemma initializeGame_wellFormed:
  "wellFormedTokens (tokenPositions (fst (initializeGame st now rc ps)))"
  using initial_fold_wellFormed[of "[]" ps]
  by (simp add: initializeGame_def Let_def wellFormedTokens_def)

lemma sendHome_wellFormed:
  "wellFormedTokens tp \<Longrightarrow> wellFormedTokens (sendHome att tgt tp)"
  using resetAll_wellFormed[of tp "tokenId ` set (collectCaptured tgt att tp)"]
  by (simp add: resetAll_captured)

lemma moveToken_keeps_wellFormed:
  assumes mv: "moveToken now st rc pid tid tgt = Inr (resp, st')" and ok: "success resp"
    and gs: "getGameState st rc = Some gs"
    and wf: "wellFormedTokens (tokenPositions gs)"
  shows "\<exists>gs'. st' = saveGameState st gs' \<and> wellFormedTokens (tokenPositions gs')"
proof -
  from moveToken_Inr[OF mv] ok gs obtain toks tok where
    lk: "map_of (tokenPositions gs) (color (players gs ! currentPlayerIndex gs)) = Some toks"
    and ap: "applyMove now st gs (players gs ! currentPlayerIndex gs) toks tok tid tgt
               = Inr (resp, st')"
    by (auto simp: moveFailed_def)
  note wf1 = place_wellFormed[OF wf lk, of tid tgt]
  from applyMove_tokens[OF wf1, of now st tok] ap
  obtain gs' where "st' = saveGameState st gs'"
    "tokenPositions gs' =
       (if isSafeSpot tgt
        then AList.update (color (players gs ! currentPlayerIndex gs))
               (setTokenPosition tid tgt toks) (tokenPositions gs)
        else sendHome (color (players gs ! currentPlayerIndex gs)) tgt
               (AList.update (color (players gs ! currentPlayerIndex gs))
                  (setTokenPosition tid tgt toks) (tokenPositions gs)))"
    by auto
  with wf1 show ?thesis by (auto simp: sendHome_wellFormed)
qed

section \<open>Stored states\<close>

lemma scan_result_lt_aux:
  assumes "nextPlayerScan ps cur i = Some y"
  shows "\<forall>r. y = Inr r \<longrightarrow> r < length ps"
  by (rule nextPlayerScan.raw_induct[OF _ assms]) (auto simp: Let_def split: if_splits)

lemma scan_result_lt: "nextPlayerScan ps cur i = Some (Inr r) \<Longrightarrow> r < length ps"
  using scan_result_lt_aux by blast

lemma stateInvariant_fields:
  "players g' = players gs \<Longrightarrow> currentPlayerIndex g' = currentPlayerIndex gs \<Longrightarrow>
   tokenPositions g' = tokenPositions gs \<Longrightarrow> stateInvariant gs \<Longrightarrow> stateInvariant g'"
  by (simp add: stateInvariant_def)

lemma switchTurn_step:
  assumes "switchTurn st rc = Some (Inr (g, st'))"
  shows "st' = st \<or> (\<exists>gs g'. getGameState st rc = Some gs \<and> st' = saveGameState st g'
            \<and> (stateInvariant gs \<longrightarrow> stateInvariant g'))"
proof (cases "getGameState st rc")
  case None
  with assms show ?thesis by (simp add: switchTurn_def)
next
  case (Some gs)
  with assms obtain r where
    sc: "nextPlayerScan (players gs) (currentPlayerIndex gs) (currentPlayerIndex gs) = Some (Inr r)"
    and st': "st' = saveGameState st (gs\<lparr>currentPlayerIndex := r, diceValue := None,
                                         phase := ROLLING, consecutiveSixes := 0\<rparr>)"
    by (auto simp: switchTurn_def Let_def split: option.splits sum.splits)
  from scan_result_lt[OF sc]
  have "stateInvariant gs \<longrightarrow> stateInvariant (gs\<lparr>currentPlayerIndex := r, diceValue := None,
                                         phase := ROLLING, consecutiveSixes := 0\<rparr>)"
    by (simp add: stateInvariant_def)
  with Some st' show ?thesis by blast
qed

lemma rollDice_step:
  assumes "rollDice st rc pid d = Some (Inr (rr, st'))"
  shows "st' = st \<or> (\<exists>gs g'. getGameState st rc = Some gs \<and> st' = saveGameState st g'
            \<and> (stateInvariant gs \<longrightarrow> stateInvariant g'))"
proof -
  from assms consider (same) "st' = st"
    | (skip) g where "switchTurn st rc = Some (Inr (g, st'))"
    | (kept) gs where "getGameState st rc = Some gs"
        "st' = saveGameState st
           (gs\<lparr>consecutiveSixes := (if d = 6 then consecutiveSixes gs + 1 else 0),
               diceValue := Some d, phase := MOVING\<rparr>)"
    by (auto simp: rollDice_def skipViaSwitchTurn_def Let_def
             split: option.splits if_splits sum.splits)
  then show ?thesis
  proof cases
    case same
    then show ?thesis by simp
  next
    case skip
    then show ?thesis by (rule switchTurn_step)
  next
    case kept
    have "stateInvariant gs \<longrightarrow> stateInvariant
           (gs\<lparr>consecutiveSixes := (if d = 6 then consecutiveSixes gs + 1 else 0),
               diceValue := Some d, phase := MOVING\<rparr>)"
      by (simp add: stateInvariant_def)
    with kept show ?thesis by blast
  qed
qed

lemma moveToken_step:
  assumes mv: "moveToken now st rc pid tid tgt = Inr (resp, st')"
  shows "st' = st \<or> (\<exists>gs g'. getGameState st rc = Some gs \<and> st' = saveGameState st g'
            \<and> (stateInvariant gs \<longrightarrow> stateInvariant g'))"
proof (cases "stateInvariant (the (getGameState st rc)) \<and> success resp")
  case False
  show ?thesis
  proof (cases "success resp")
    case False
    with moveToken_Inr[OF mv] have "st' = st" by (auto dest!: applyMove_Inr)
    then show ?thesis by simp
  next
    case True
    from moveToken_success_state[OF mv True] obtain gs gsF where
      "getGameState st rc = Some gs" "st' = saveGameState st gsF" by blast
    with False True show ?thesis by auto
  qed
next
  case True
  then have ok: "success resp" by simp
  from moveToken_Inr[OF mv] ok obtain gs toks tok where
    g: "getGameState st rc = Some gs" "currentPlayerIndex gs < length (players gs)"
    and lk: "map_of (tokenPositions gs) (color (players gs ! currentPlayerIndex gs)) = Some toks"
    and ap: "applyMove now st gs (players gs ! currentPlayerIndex gs) toks tok tid tgt
               = Inr (resp, st')"
    by (auto simp: moveFailed_def)
  from True g(1) have wf: "wellFormedTokens (tokenPositions gs)"
    by (simp add: stateInvariant_def)
  note wf1 = place_wellFormed[OF wf lk, of tid tgt]
  from applyMove_tokens[OF wf1, of now st tok] ap
  obtain gs' where gs': "st' = saveGameState st gs'"
    "tokenPositions gs' =
       (if isSafeSpot tgt
        then AList.update (color (players gs ! currentPlayerIndex gs))
               (setTokenPosition tid tgt toks) (tokenPositions gs)
        else sendHome (color (players gs ! currentPlayerIndex gs)) tgt
               (AList.update (color (players gs ! currentPlayerIndex gs))
                  (setTokenPosition tid tgt toks) (tokenPositions gs)))"
    "currentPlayerIndex gs' = currentPlayerIndex gs"
    "length (players gs') = length (players gs)"
    by auto
  from gs'(2) wf1 have "wellFormedTokens (tokenPositions gs')"
    by (auto simp: sendHome_wellFormed)
  with gs'(3,4) g(2) have "stateInvariant gs'" by (simp add: stateInvariant_def)
  with g(1) gs'(1) show ?thesis by blast
qed

lemma step_invariant:
  assumes inv: "\<forall>rc gs. st rc = Some gs \<longrightarrow> stateInvariant gs"
    and step: "st' = st \<or> (\<exists>gs g'. getGameState st rc = Some gs \<and> st' = saveGameState st g'
            \<and> (stateInvariant gs \<longrightarrow> stateInvariant g'))"
  shows "\<forall>rc gs. st' rc = Some gs \<longrightarrow> stateInvariant gs"
  using assms by (auto simp: saveGameState_def getGameState_def split: if_splits)

lemma stored_invariant:
  "stored st \<Longrightarrow> \<forall>rc gs. st rc = Some gs \<longrightarrow> stateInvariant gs"
proof (induction rule: stored.induct)
  case stored_empty
  then show ?case by simp
next
  case (stored_initializeGame st now rc ps)
  let ?g = "fst (initializeGame st now rc ps)"
  have "stateInvariant ?g"
    using initializeGame_wellFormed[of st now rc ps]
    by (auto simp: stateInvariant_def initializeGame_def Let_def)
  moreover have "snd (initializeGame st now rc ps) = saveGameState st ?g"
    by (simp add: initializeGame_def Let_def)
  ultimately show ?case using stored_initializeGame.IH
    by (auto simp: saveGameState_def split: if_splits)
next
  case (stored_rollDice st rc pid d rr st')
  from step_invariant[OF stored_rollDice.IH rollDice_step[OF stored_rollDice.hyps(2)]]
  show ?case .
next
  case (stored_moveToken st now rc pid tid tgt resp st')
  from step_invariant[OF stored_moveToken.IH moveToken_step[OF stored_moveToken.hyps(2)]]
  show ?case .
next
  case (stored_switchTurn st rc g st')
  from step_invariant[OF stored_switchTurn.IH switchTurn_step[OF stored_switchTurn.hyps(2)]]
  show ?case .
next
  case (stored_connectionStatus st rc pid status)
  have "updatePlayerConnectionStatus st rc pid status = st
     \<or> (\<exists>gs g'. getGameState st rc = Some gs
           \<and> updatePlayerConnectionStatus st rc pid status = saveGameState st g'
           \<and> (stateInvariant gs \<longrightarrow> stateInvariant g'))"
  proof (cases "getGameState st rc")
    case None
    then show ?thesis by (simp add: updatePlayerConnectionStatus_def)
  next
    case (Some gs)
    show ?thesis
    proof (cases "findIndex (\<lambda>p. playerId p = pid) (players gs)")
      case None
      with Some show ?thesis by (simp add: updatePlayerConnectionStatus_def)
    next
      case (Some i)
      let ?g' = "gs\<lparr>players := (players gs)[i := (players gs ! i)\<lparr>connectionStatus := status\<rparr>]\<rparr>"
      have "stateInvariant gs \<longrightarrow> stateInvariant ?g'" by (simp add: stateInvariant_def)
      moreover have "updatePlayerConnectionStatus st rc pid status = saveGameState st ?g'"
        using Some \<open>getGameState st rc = Some gs\<close> by (simp add: updatePlayerConnectionStatus_def)
      ultimately show ?thesis using \<open>getGameState st rc = Some gs\<close> by blast
    qed
  qed
  from step_invariant[OF stored_connectionStatus.IH this] show ?case .
next
  case (stored_permanentDisconnection w pid rc)
  have "games (handlePermanentDisconnection w pid rc) = games w
     \<or> (\<exists>gs g'. getGameState (games w) rc = Some gs
           \<and> games (handlePermanentDisconnection w pid rc) = saveGameState (games w) g'
           \<and> (stateInvariant gs \<longrightarrow> stateInvariant g'))"
  proof (cases "getGameState (games w) rc")
    case None
    then show ?thesis by (simp add: handlePermanentDisconnection_def)
  next
    case (Some gs)
    let ?ps = "filter (\<lambda>p. playerId p \<noteq> pid) (players gs)"
    let ?g1 = "gs\<lparr>players := ?ps\<rparr>"
    let ?g' = "if currentPlayerIndex ?g1 \<ge> length (players ?g1)
               then ?g1\<lparr>currentPlayerIndex := 0\<rparr> else ?g1"
    show ?thesis
    proof (cases "length ?ps > 0")
      case False
      with Some show ?thesis by (simp add: handlePermanentDisconnection_def Let_def)
    next
      case True
      then have "stateInvariant gs \<longrightarrow> stateInvariant ?g'"
        by (auto simp: stateInvariant_def)
      moreover have "games (handlePermanentDisconnection w pid rc) = saveGameState (games w) ?g'"
        using Some True by (simp add: handlePermanentDisconnection_def Let_def)
      ultimately show ?thesis using Some by blast
    qed
  qed
  from step_invariant[OF stored_permanentDisconnection.IH this] show ?case .
next
  case (stored_deleteGameState st rc)
  then show ?case by (auto simp: deleteGameState_def split: if_splits)
qed

lemma scan_result_stops:
  assumes "nextPlayerScan ps cur i = Some y"
  shows "case y of Inl e \<Rightarrow> ps = [] | Inr r \<Rightarrow> r < length ps \<and> scanStops ps cur r"
  by (rule nextPlayerScan.raw_induct[OF _ assms])
     (auto simp: Let_def scanStops_def split: if_splits sum.splits)

text \<open>
  Outside the stored states the loop need not end: when \<open>currentPlayerIndex\<close> is not an
  index of the player list and every player has a rank above 0, the scan never meets its
  stop condition.
\<close>

lemma scan_out_of_range_diverges:
  assumes "rank p > 0"
  shows "nextPlayerScan [p] 1 i = None"
proof (rule ccontr)
  assume "nextPlayerScan [p] 1 i \<noteq> None"
  then obtain y where y: "nextPlayerScan [p] 1 i = Some y" by auto
  from scan_result_stops[OF y] assms show False
    by (cases y) (auto simp: scanStops_def)
qed

lemma stored_index_in_range:
  "stored st \<Longrightarrow> getGameState st rc = Some gs \<Longrightarrow> players gs \<noteq> [] \<Longrightarrow>
     currentPlayerIndex gs < length (players gs)"
  using stored_invariant[of st] by (auto simp: getGameState_def stateInvariant_def)

lemma stored_wellFormed:
  "stored st \<Longrightarrow> getGameState st rc = Some gs \<Longrightarrow> wellFormedTokens (tokenPositions gs)"
  using stored_invariant[of st] by (auto simp: getGameState_def stateInvariant_def)

text \<open>
  C10.  For every stored game state with a non-empty player list, \<open>switchTurn\<close>
  terminates: the scan returns within \<open>players.length\<close> iterations, at a player of rank 0
  or back at the index it started from, and the updated state is saved.
\<close>

theorem switchTurn_terminates:
  assumes st: "stored st"
    and gs: "getGameState st rc = Some gs"
    and ne: "players gs \<noteq> []"
  shows "\<exists>r. nextPlayerScanN (length (players gs)) (players gs)
                (currentPlayerIndex gs) (currentPlayerIndex gs) = Some (Inr r)
     \<and> r < length (players gs)
     \<and> (rank (players gs ! r) = 0 \<or> r = currentPlayerIndex gs)
     \<and> switchTurn st rc =
         Some (Inr (Some (gs\<lparr>currentPlayerIndex := r, diceValue := None, phase := ROLLING,
                               consecutiveSixes := 0\<rparr>),
                    saveGameState st (gs\<lparr>currentPlayerIndex := r, diceValue := None,
                                          phase := ROLLING, consecutiveSixes := 0\<rparr>)))"
proof -
  note cur = stored_index_in_range[OF st gs ne]
  from scan_returns_in_range[OF ne cur]
  obtain r where r: "nextPlayerScanN (length (players gs)) (players gs)
                       (currentPlayerIndex gs) (currentPlayerIndex gs) = Some (Inr r)"
      "r < length (players gs)" "scanStops (players gs) (currentPlayerIndex gs) r"
    by blast
  from r(3) have "rank (players gs ! r) = 0 \<or> r = currentPlayerIndex gs"
    by (simp add: scanStops_def)
  with r(1,2) switchTurn_Some[OF gs scanN_sound[OF r(1)]] show ?thesis by blast
qed

lemma threePlayerGame_initialized:
  "initializeGame Map.empty 0 ''ROOM01'' [alice, bob, carol]
     = (threePlayerGame, [''ROOM01'' \<mapsto> threePlayerGame])"
  by (simp add: initializeGame_def saveGameState_def threePlayerGame_def gameOf_def Let_def
        alice_def bob_def carol_def)

lemma threePlayerGame_scanN:
  "nextPlayerScanN (length (players threePlayerGame)) (players threePlayerGame)
     (currentPlayerIndex threePlayerGame) (currentPlayerIndex threePlayerGame) = Some (Inr 1)"
  by code_simp

theorem switchTurn_terminates_witness:
  "stored [''ROOM01'' \<mapsto> threePlayerGame]
   \<and> switchTurn [''ROOM01'' \<mapsto> threePlayerGame] ''ROOM01'' =
       Some (Inr (Some (threePlayerGame\<lparr>currentPlayerIndex := 1\<rparr>),
                  [''ROOM01'' \<mapsto> threePlayerGame\<lparr>currentPlayerIndex := 1\<rparr>]))"
proof -
  let ?st = "[''ROOM01'' \<mapsto> threePlayerGame]"
  have "stored (snd (initializeGame Map.empty 0 ''ROOM01'' [alice, bob, carol]))"
    by (intro stored_initializeGame stored_empty)
  then have st: "stored ?st" by (simp add: threePlayerGame_initialized)
  have g: "getGameState ?st ''ROOM01'' = Some threePlayerGame" by (simp add: getGameState_def)
  have ne: "players threePlayerGame \<noteq> []" by (simp add: threePlayerGame_def gameOf_def)
  have same: "threePlayerGame\<lparr>currentPlayerIndex := 1, diceValue := None, phase := ROLLING,
                               consecutiveSixes := 0\<rparr> = threePlayerGame\<lparr>currentPlayerIndex := 1\<rparr>"
    and key: "roomCode threePlayerGame = ''ROOM01''"
    by (simp_all add: threePlayerGame_def gameOf_def)
  from switchTurn_terminates[OF st g ne] threePlayerGame_scanN same
  have "switchTurn ?st ''ROOM01'' =
       Some (Inr (Some (threePlayerGame\<lparr>currentPlayerIndex := 1\<rparr>),
                  [''ROOM01'' \<mapsto> threePlayerGame\<lparr>currentPlayerIndex := 1\<rparr>]))"
    by (auto simp: saveGameState_def key)
  with st show ?thesis by simp
qed

section \<open>The extra turn for a six\<close>

lemma rollDice_usable_six:
  assumes gs: "getGameState st rc = Some gs"
    and cur: "currentPlayerIndex gs < length (players gs)"
    and pid: "playerId (players gs ! currentPlayerIndex gs) = pid"
    and ph: "phase gs = ROLLING"
    and nt: "consecutiveSixes gs \<noteq> 2"
    and mv: "checkValidMoves gs (color (players gs ! currentPlayerIndex gs)) 6 = Inr True"
  shows "rollDice st rc pid 6 =
           Some (Inr (rolled 6 False,
                      saveGameState st (gs\<lparr>consecutiveSixes := consecutiveSixes gs + 1,
                                           diceValue := Some 6, phase := MOVING\<rparr>)))"
  using assms by (simp add: rollDice_def Let_def)

lemma usable_token_checkValidMoves:
  assumes lk: "map_of (tokenPositions gs) c = Some toks"
    and fnd: "find (\<lambda>t. tokenId t = tid) toks = Some tok"
    and tg: "targetPosition (canMoveToken (positionId tok) d c) = Some tgt"
  shows "checkValidMoves gs c d = Inr True"
proof -
  from fnd have "tok \<in> set toks" by (auto simp: find_Some_iff)
  with canMoveToken_target_valid[OF tg]
  have "list_ex (\<lambda>t. valid (canMoveToken (positionId t) d c)) toks"
    by (auto simp: list_ex_iff)
  with lk show ?thesis by (simp add: checkValidMoves_def)
qed

lemma six_roll_then_move:
  assumes gs: "getGameState st rc = Some gs"
    and rc: "roomCode gs = rc"
    and cur: "currentPlayerIndex gs < length (players gs)"
    and pid: "playerId (players gs ! currentPlayerIndex gs) = pid"
    and ph: "phase gs = ROLLING"
    and nt: "consecutiveSixes gs \<noteq> 2"
    and wf: "wellFormedTokens (tokenPositions gs)"
    and lk: "map_of (tokenPositions gs) (color (players gs ! currentPlayerIndex gs)) = Some toks"
    and fnd: "find (\<lambda>t. tokenId t = tid) toks = Some tok"
    and tg: "targetPosition (canMoveToken (positionId tok) 6
               (color (players gs ! currentPlayerIndex gs))) = Some tgt"
    and g1: "g1 = gs\<lparr>consecutiveSixes := consecutiveSixes gs + 1,
                      diceValue := Some 6, phase := MOVING\<rparr>"
  shows "rollDice st rc pid 6 = Some (Inr (rolled 6 False, saveGameState st g1))
     \<and> (\<exists>mr g2. moveToken now (saveGameState st g1) rc pid tid tgt
                  = Inr (\<lparr>success = True, result = Some mr, error = None\<rparr>,
                         saveGameState (saveGameState st g1) g2)
           \<and> getGameState (saveGameState (saveGameState st g1) g2) rc = Some g2
           \<and> m_extraTurn mr \<and> diceValue g2 = None \<and> phase g2 = ROLLING
           \<and> currentPlayerIndex g2 = currentPlayerIndex gs)"
proof -
  note roll = rollDice_usable_six[OF gs cur pid ph nt usable_token_checkValidMoves[OF lk fnd tg]]
  have l1: "getGameState (saveGameState st g1) rc = Some g1"
    using rc g1 by (simp add: saved_lookup)
  have f: "currentPlayerIndex g1 < length (players g1)"
      "playerId (players g1 ! currentPlayerIndex g1) = pid"
      "phase g1 = MOVING" "diceValue g1 = Some 6"
      "wellFormedTokens (tokenPositions g1)"
      "map_of (tokenPositions g1) (color (players g1 ! currentPlayerIndex g1)) = Some toks"
      "targetPosition (canMoveToken (positionId tok) 6
               (color (players g1 ! currentPlayerIndex g1))) = Some tgt"
    using cur pid wf lk tg by (simp_all add: g1)
  from moveToken_applied[OF l1 f(1,2,3,4,5,6) fnd f(7), of now]
  obtain g2 mr where
    run: "moveToken now (saveGameState st g1) rc pid tid tgt
            = Inr (\<lparr>success = True, result = Some mr, error = None\<rparr>,
                   saveGameState (saveGameState st g1) g2)"
    and ex: "m_extraTurn mr =
         (diceValue g1 = Some 6 \<or>
          captured (detectCollision tgt (color (players g1 ! currentPlayerIndex g1))
                 (AList.update (color (players g1 ! currentPlayerIndex g1))
                    (setTokenPosition tid tgt toks) (tokenPositions g1))))"
    and rest: "phase g2 = ROLLING" "diceValue g2 = None"
              "currentPlayerIndex g2 = currentPlayerIndex g1" "roomCode g2 = roomCode g1"
    by blast
  have l2: "getGameState (saveGameState (saveGameState st g1) g2) rc = Some g2"
    using rest(4) rc by (simp add: saved_lookup g1)
  from ex f(4) have "m_extraTurn mr" by simp
  with roll run l2 rest show ?thesis by (auto simp: g1)
qed

text \<open>
  C2, as amended.  For every game state in phase ROLLING and every 6 rolled by the current
  player: if the counter of consecutive sixes is not 2 and a token of the player can move
  with the 6, the roll is kept (\<open>skipTurn = false\<close>, dice 6, phase MOVING), and every
  request to move such a token, on well-formed token lists, is applied and grants the extra
  turn: the move reports \<open>extraTurn\<close>, the dice is cleared, the phase is ROLLING again and
  \<open>currentPlayerIndex\<close> is unchanged.  A roll of 6 with no legal move reports
  \<open>skipTurn = true\<close> and saves the state that \<open>switchTurn\<close> writes, with the index moved on
  by the scan.
\<close>

theorem six_extra_turn_through_move:
  "(getGameState st rc = Some gs
      \<and> currentPlayerIndex gs < length (players gs)
      \<and> playerId (players gs ! currentPlayerIndex gs) = pid
      \<and> phase gs = ROLLING \<and> consecutiveSixes gs \<noteq> 2
      \<and> checkValidMoves gs (color (players gs ! currentPlayerIndex gs)) 6 = Inr True
     \<longrightarrow> rollDice st rc pid 6 =
           Some (Inr (rolled 6 False,
                      saveGameState st (gs\<lparr>consecutiveSixes := consecutiveSixes gs + 1,
                                           diceValue := Some 6, phase := MOVING\<rparr>))))
   \<and> (getGameState st rc = Some gs \<and> roomCode gs = rc
      \<and> currentPlayerIndex gs < length (players gs)
      \<and> playerId (players gs ! currentPlayerIndex gs) = pid
      \<and> phase gs = ROLLING \<and> consecutiveSixes gs \<noteq> 2
      \<and> wellFormedTokens (tokenPositions gs)
      \<and> map_of (tokenPositions gs) (color (players gs ! currentPlayerIndex gs)) = Some toks
      \<and> find (\<lambda>t. tokenId t = tid) toks = Some tok
      \<and> targetPosition (canMoveToken (positionId tok) 6
           (color (players gs ! currentPlayerIndex gs))) = Some tgt
     \<longrightarrow> (let g1 = gs\<lparr>consecutiveSixes := consecutiveSixes gs + 1,
                        diceValue := Some 6, phase := MOVING\<rparr>;
               st1 = saveGameState st g1
           in rollDice st rc pid 6 = Some (Inr (rolled 6 False, st1))
            \<and> (\<exists>mr g2. moveToken now st1 rc pid tid tgt
                         = Inr (\<lparr>success = True, result = Some mr, error = None\<rparr>,
                                saveGameState st1 g2)
                  \<and> getGameState (saveGameState st1 g2) rc = Some g2
                  \<and> m_extraTurn mr \<and> diceValue g2 = None \<and> phase g2 = ROLLING
                  \<and> currentPlayerIndex g2 = currentPlayerIndex gs)))
   \<and> (getGameState st rc = Some gs
      \<and> currentPlayerIndex gs < length (players gs)
      \<and> playerId (players gs ! currentPlayerIndex gs) = pid
      \<and> phase gs = ROLLING
      \<and> checkValidMoves gs (color (players gs ! currentPlayerIndex gs)) 6 = Inr False
     \<longrightarrow> (\<exists>r. nextPlayerScan (players gs) (currentPlayerIndex gs) (currentPlayerIndex gs)
                 = Some (Inr r)
            \<and> rollDice st rc pid 6 =
                Some (Inr (rolled 6 True,
                           saveGameState st (gs\<lparr>currentPlayerIndex := r, diceValue := None,
                                                phase := ROLLING, consecutiveSixes := 0\<rparr>)))))"
proof (intro conjI impI)
  assume "getGameState st rc = Some gs
      \<and> currentPlayerIndex gs < length (players gs)
      \<and> playerId (players gs ! currentPlayerIndex gs) = pid
      \<and> phase gs = ROLLING \<and> consecutiveSixes gs \<noteq> 2
      \<and> checkValidMoves gs (color (players gs ! currentPlayerIndex gs)) 6 = Inr True"
  then show "rollDice st rc pid 6 =
           Some (Inr (rolled 6 False,
                      saveGameState st (gs\<lparr>consecutiveSixes := consecutiveSixes gs + 1,
                                           diceValue := Some 6, phase := MOVING\<rparr>)))"
    by (intro rollDice_usable_six) simp_all
next
  assume a: "getGameState st rc = Some gs \<and> roomCode gs = rc
      \<and> currentPlayerIndex gs < length (players gs)
      \<and> playerId (players gs ! currentPlayerIndex gs) = pid
      \<and> phase gs = ROLLING \<and> consecutiveSixes gs \<noteq> 2
      \<and> wellFormedTokens (tokenPositions gs)
      \<and> map_of (tokenPositions gs) (color (players gs ! currentPlayerIndex gs)) = Some toks
      \<and> find (\<lambda>t. tokenId t = tid) toks = Some tok
      \<and> targetPosition (canMoveToken (positionId tok) 6
           (color (players gs ! currentPlayerIndex gs))) = Some tgt"
  then have h: "getGameState st rc = Some gs" "roomCode gs = rc"
      "currentPlayerIndex gs < length (players gs)"
      "playerId (players gs ! currentPlayerIndex gs) = pid"
      "phase gs = ROLLING" "consecutiveSixes gs \<noteq> 2"
      "wellFormedTokens (tokenPositions gs)"
      "map_of (tokenPositions gs) (color (players gs ! currentPlayerIndex gs)) = Some toks"
      "find (\<lambda>t. tokenId t = tid) toks = Some tok"
      "targetPosition (canMoveToken (positionId tok) 6
           (color (players gs ! currentPlayerIndex gs))) = Some tgt"
    by simp_all
  from six_roll_then_move[OF h refl, of now]
  show "let g1 = gs\<lparr>consecutiveSixes := consecutiveSixes gs + 1,
                        diceValue := Some 6, phase := MOVING\<rparr>;
               st1 = saveGameState st g1
           in rollDice st rc pid 6 = Some (Inr (rolled 6 False, st1))
            \<and> (\<exists>mr g2. moveToken now st1 rc pid tid tgt
                         = Inr (\<lparr>success = True, result = Some mr, error = None\<rparr>,
                                saveGameState st1 g2)
                  \<and> getGameState (saveGameState st1 g2) rc = Some g2
                  \<and> m_extraTurn mr \<and> diceValue g2 = None \<and> phase g2 = ROLLING
                  \<and> currentPlayerIndex g2 = currentPlayerIndex gs)"
    unfolding Let_def .
next
  assume "getGameState st rc = Some gs
      \<and> currentPlayerIndex gs < length (players gs)
      \<and> playerId (players gs ! currentPlayerIndex gs) = pid
      \<and> phase gs = ROLLING
      \<and> checkValidMoves gs (color (players gs ! currentPlayerIndex gs)) 6 = Inr False"
  then have "\<exists>r. nextPlayerScan (players gs) (currentPlayerIndex gs) (currentPlayerIndex gs) = Some (Inr r)
     \<and> r < length (players gs) \<and> scanStops (players gs) (currentPlayerIndex gs) r
     \<and> rollDice st rc pid 6 =
          Some (Inr (rolled 6 True,
                     saveGameState st (gs\<lparr>currentPlayerIndex := r, diceValue := None,
                                          phase := ROLLING, consecutiveSixes := 0\<rparr>)))"
    by (intro rollDice_no_legal_move) simp_all
  then show "\<exists>r. nextPlayerScan (players gs) (currentPlayerIndex gs) (currentPlayerIndex gs)
                 = Some (Inr r)
            \<and> rollDice st rc pid 6 =
                Some (Inr (rolled 6 True,
                           saveGameState st (gs\<lparr>currentPlayerIndex := r, diceValue := None,
                                                phase := ROLLING, consecutiveSixes := 0\<rparr>)))"
    by blast
qed

theorem six_extra_turn_through_move_witness:
  "checkValidMoves freshGame RED 6 = Inr True
   \<and> rollDice [''ROOM01'' \<mapsto> freshGame] ''ROOM01'' ''p1'' 6
       = Some (Inr (rolled 6 False, [''ROOM01'' \<mapsto> movingGame]))
   \<and> moveToken 1 [''ROOM01'' \<mapsto> movingGame] ''ROOM01'' ''p1'' ''RT1'' ''R10''
       = Inr (\<lparr>success = True,
                result = Some \<lparr>m_success = True, m_tokenId = ''RT1'', m_fromPosition = ''R1'',
                               m_toPosition = ''R10'', m_capturedTokenId = None,
                               m_extraTurn = True\<rparr>,
                error = None\<rparr>, [''ROOM01'' \<mapsto> sixGame2])
   \<and> diceValue sixGame2 = None \<and> phase sixGame2 = ROLLING
   \<and> currentPlayerIndex sixGame2 = currentPlayerIndex freshGame
   \<and> checkValidMoves stuckGame RED 6 = Inr False
   \<and> rollDice [''ROOM01'' \<mapsto> stuckGame] ''ROOM01'' ''p1'' 6
       = Some (Inr (rolled 6 True, [''ROOM01'' \<mapsto> stuckGame\<lparr>currentPlayerIndex := 1\<rparr>]))"
proof -
  let ?st = "[''ROOM01'' \<mapsto> freshGame]"
  let ?tok = "\<lparr>tokenId = ''RT1'', positionId = ''R1''\<rparr>"
  have g1: "freshGame\<lparr>consecutiveSixes := consecutiveSixes freshGame + 1,
                       diceValue := Some 6, phase := MOVING\<rparr> = movingGame"
    by (simp add: movingGame_def freshGame_def gameOf_def)
  have s1: "saveGameState ?st movingGame = [''ROOM01'' \<mapsto> movingGame]"
    by (simp add: saveGameState_def movingGame_def freshGame_def gameOf_def)
  have usable: "checkValidMoves freshGame RED 6 = Inr True"
    by (simp add: checkValidMoves_def freshGame_def gameOf_def initialTokens_eval
          canMoveToken_def isTokenInBase_def endsWithF_def getTokenPath_def)
  have k1: "getGameState ?st ''ROOM01'' = Some freshGame
      \<and> currentPlayerIndex freshGame < length (players freshGame)
      \<and> playerId (players freshGame ! currentPlayerIndex freshGame) = ''p1''
      \<and> phase freshGame = ROLLING \<and> consecutiveSixes freshGame \<noteq> 2
      \<and> checkValidMoves freshGame (color (players freshGame ! currentPlayerIndex freshGame)) 6
          = Inr True"
    using usable by (simp add: getGameState_def freshGame_def gameOf_def alice_def)
  from six_extra_turn_through_move[THEN conjunct1, rule_format, OF k1]
  have roll: "rollDice ?st ''ROOM01'' ''p1'' 6
       = Some (Inr (rolled 6 False, [''ROOM01'' \<mapsto> movingGame]))"
    unfolding g1 s1 .
  have wf: "wellFormedTokens (tokenPositions freshGame)"
    by (simp add: wellFormedTokens_def wellFormedEntry_def freshGame_def gameOf_def
          initialTokens_eval isValidTokenId_def)
  have k2: "getGameState ?st ''ROOM01'' = Some freshGame \<and> roomCode freshGame = ''ROOM01''
      \<and> currentPlayerIndex freshGame < length (players freshGame)
      \<and> playerId (players freshGame ! currentPlayerIndex freshGame) = ''p1''
      \<and> phase freshGame = ROLLING \<and> consecutiveSixes freshGame \<noteq> 2
      \<and> wellFormedTokens (tokenPositions freshGame)
      \<and> map_of (tokenPositions freshGame)
           (color (players freshGame ! currentPlayerIndex freshGame)) = Some (initialTokens RED)
      \<and> find (\<lambda>t. tokenId t = ''RT1'') (initialTokens RED) = Some ?tok
      \<and> targetPosition (canMoveToken (positionId ?tok) 6
           (color (players freshGame ! currentPlayerIndex freshGame))) = Some ''R10''"
    using wf
    by (simp add: getGameState_def freshGame_def gameOf_def alice_def initialTokens_eval
          canMoveToken_def isTokenInBase_def endsWithF_def getTokenPath_def)
  from six_extra_turn_through_move[THEN conjunct2, THEN conjunct1, rule_format, OF k2, of 1]
  obtain mr g2 where
    run: "moveToken 1 [''ROOM01'' \<mapsto> movingGame] ''ROOM01'' ''p1'' ''RT1'' ''R10''
            = Inr (\<lparr>success = True, result = Some mr, error = None\<rparr>,
                   saveGameState [''ROOM01'' \<mapsto> movingGame] g2)"
    and l2: "getGameState (saveGameState [''ROOM01'' \<mapsto> movingGame] g2) ''ROOM01'' = Some g2"
    and ex: "m_extraTurn mr" "diceValue g2 = None" "phase g2 = ROLLING"
            "currentPlayerIndex g2 = currentPlayerIndex freshGame"
    unfolding Let_def g1 s1 by blast
  from run six_run_2
  have "saveGameState [''ROOM01'' \<mapsto> movingGame] g2 = [''ROOM01'' \<mapsto> sixGame2]" by simp
  with l2 have "g2 = sixGame2" by (simp add: getGameState_def)
  with ex have after: "diceValue sixGame2 = None" "phase sixGame2 = ROLLING"
      "currentPlayerIndex sixGame2 = currentPlayerIndex freshGame"
    by simp_all
  have stuck: "checkValidMoves stuckGame RED 6 = Inr False"
    by (simp add: stuckGame_def gameOf_def checkValidMoves_def canMoveToken_def
          isTokenInBase_def endsWithF_def getTokenPath_def)
  have k3: "getGameState [''ROOM01'' \<mapsto> stuckGame] ''ROOM01'' = Some stuckGame
      \<and> currentPlayerIndex stuckGame < length (players stuckGame)
      \<and> playerId (players stuckGame ! currentPlayerIndex stuckGame) = ''p1''
      \<and> phase stuckGame = ROLLING
      \<and> checkValidMoves stuckGame (color (players stuckGame ! currentPlayerIndex stuckGame)) 6
           = Inr False"
    by (simp add: getGameState_def stuckGame_def gameOf_def alice_def checkValidMoves_def
          canMoveToken_def isTokenInBase_def getTokenPath_def)
  have ps: "players stuckGame = [alice, bob]" "currentPlayerIndex stuckGame = 0"
    by (simp_all add: stuckGame_def gameOf_def)
  from six_extra_turn_through_move[THEN conjunct2, THEN conjunct2, rule_format, OF k3]
    two_player_scan ps
  have "rollDice [''ROOM01'' \<mapsto> stuckGame] ''ROOM01'' ''p1'' 6 =
          Some (Inr (rolled 6 True,
                     saveGameState [''ROOM01'' \<mapsto> stuckGame]
                        (stuckGame\<lparr>currentPlayerIndex := 1, diceValue := None,
                             phase := ROLLING, consecutiveSixes := 0\<rparr>)))"
    by auto
  then have skip: "rollDice [''ROOM01'' \<mapsto> stuckGame] ''ROOM01'' ''p1'' 6
       = Some (Inr (rolled 6 True, [''ROOM01'' \<mapsto> stuckGame\<lparr>currentPlayerIndex := 1\<rparr>]))"
    by (simp add: saveGameState_def stuckGame_def gameOf_def)
  from usable roll six_run_2 after stuck skip show ?thesis by simp
qed

end
